theory Spec2Isabelle
  imports Main "HOL-Library.Sublist"
begin

section \<open>Go errors\<close>

text \<open>
  A Go \<open>error\<close> value is modelled by its API status reason (what
  \<open>errors.IsNotFound\<close> and \<open>errors.IsAlreadyExists\<close> inspect) and its message (what
  \<open>Error()\<close> and the verb \<open>%s\<close> print). The nil error is \<open>None\<close> of \<open>error option\<close>.
\<close>

datatype status_reason = StatusReasonNotFound | StatusReasonAlreadyExists | StatusReasonUnknown

datatype error = Error status_reason string

fun reason_of :: "error \<Rightarrow> status_reason" where
  "reason_of (Error r m) = r"

fun message :: "error \<Rightarrow> string" where
  "message (Error r m) = m"

definition IsNotFound :: "error \<Rightarrow> bool" where
  "IsNotFound e = (reason_of e = StatusReasonNotFound)"

definition IsAlreadyExists :: "error \<Rightarrow> bool" where
  "IsAlreadyExists e = (reason_of e = StatusReasonAlreadyExists)"

text \<open>\<open>goerrors.New\<close> and \<open>fmt.Errorf\<close> build plain errors: they carry no API status.\<close>

definition New_error :: "string \<Rightarrow> error" where
  "New_error m = Error StatusReasonUnknown m"

text \<open>
  \<open>wait.ErrWaitTimeout\<close>, the error \<open>wait.Poll\<close> returns when the ceiling is reached
  (package k8s.io/apimachinery/pkg/util/wait, outside the repository).
\<close>

definition ErrWaitTimeout :: error where
  "ErrWaitTimeout = New_error ''timed out waiting for the condition''"

section \<open>Policy rule model (pkg/policy/api/rule.go)\<close>

subsection \<open>Rules in memory\<close>

text \<open>
  A \<open>*Rule\<close> is the address of a \<open>Rule\<close> struct. The struct holds its description by
  value and refers to everything else it owns: the object behind its endpoint selector,
  and the arrays behind the slices \<open>Ingress\<close>, \<open>Egress\<close> and \<open>Labels\<close>. A slice is nil or
  the address of its array with a length and a capacity (a slice that starts inside an
  array is seen as its own array from there). Go is type safe, so each kind of object
  has its own address space. The selector object, the ingress and egress rule variants
  and the labels are external to the rule model: their values are the type parameters
  \<open>'s\<close>, \<open>'i\<close>, \<open>'e\<close> and \<open>'l\<close>.
\<close>

type_synonym addr = nat

datatype slice = NilSlice | Slice addr nat nat

record Rule =
  EndpointSelector :: "addr option"
  Ingress :: slice
  Egress :: slice
  Labels :: slice
  Description :: string

record ('s, 'i, 'e, 'l) heap =
  rules :: "Rule list"
  selectors :: "'s list"
  ingressArrays :: "'i list list"
  egressArrays :: "'e list list"
  labelArrays :: "'l list list"

fun wf_slice :: "'x list list \<Rightarrow> slice \<Rightarrow> bool" where
  "wf_slice arrs NilSlice = True"
| "wf_slice arrs (Slice a n c) = (a < length arrs \<and> n \<le> c \<and> c \<le> length (arrs ! a))"

definition wf_selector :: "'s list \<Rightarrow> addr option \<Rightarrow> bool" where
  "wf_selector sels p = (case p of None \<Rightarrow> True | Some a \<Rightarrow> a < length sels)"

text \<open>\<open>r\<close> points to a rule of the memory \<open>h\<close>, and so does all that the rule refers to.\<close>

definition wf_rule :: "('s, 'i, 'e, 'l) heap \<Rightarrow> addr \<Rightarrow> bool" where
  "wf_rule h r =
     (r < length (rules h)
      \<and> wf_selector (selectors h) (EndpointSelector (rules h ! r))
      \<and> wf_slice (ingressArrays h) (Ingress (rules h ! r))
      \<and> wf_slice (egressArrays h) (Egress (rules h ! r))
      \<and> wf_slice (labelArrays h) (Labels (rules h ! r)))"

subsection \<open>What a rule is worth, and what it owns\<close>

text \<open>The elements of a slice; \<open>None\<close> is the nil slice, which Go tells from an empty one.\<close>

fun slice_value :: "'x list list \<Rightarrow> slice \<Rightarrow> 'x list option" where
  "slice_value arrs NilSlice = None"
| "slice_value arrs (Slice a n c) = Some (take n (arrs ! a))"

record ('s, 'i, 'e, 'l) rule_value =
  selector :: "'s option"
  ingress :: "'i list option"
  egress :: "'e list option"
  labels :: "'l list option"
  description :: string

text \<open>The structure a rule stands for: what structural equality compares.\<close>

definition rule_value :: "('s, 'i, 'e, 'l) heap \<Rightarrow> addr \<Rightarrow> ('s, 'i, 'e, 'l) rule_value" where
  "rule_value h r =
     \<lparr>selector = map_option (\<lambda>a. selectors h ! a) (EndpointSelector (rules h ! r)),
      ingress = slice_value (ingressArrays h) (Ingress (rules h ! r)),
      egress = slice_value (egressArrays h) (Egress (rules h ! r)),
      labels = slice_value (labelArrays h) (Labels (rules h ! r)),
      description = Description (rules h ! r)\<rparr>"

datatype loc =
    RuleAt addr
  | SelectorAt addr
  | IngressArrayAt addr
  | EgressArrayAt addr
  | LabelArrayAt addr

datatype ('s, 'i, 'e, 'l) object =
    RuleObject Rule
  | SelectorObject 's
  | IngressArrayObject "'i list"
  | EgressArrayObject "'e list"
  | LabelArrayObject "'l list"

fun object_at :: "('s, 'i, 'e, 'l) heap \<Rightarrow> loc \<Rightarrow> ('s, 'i, 'e, 'l) object option" where
  "object_at h (RuleAt a) =
     (if a < length (rules h) then Some (RuleObject (rules h ! a)) else None)"
| "object_at h (SelectorAt a) =
     (if a < length (selectors h) then Some (SelectorObject (selectors h ! a)) else None)"
| "object_at h (IngressArrayAt a) =
     (if a < length (ingressArrays h) then Some (IngressArrayObject (ingressArrays h ! a))
      else None)"
| "object_at h (EgressArrayAt a) =
     (if a < length (egressArrays h) then Some (EgressArrayObject (egressArrays h ! a))
      else None)"
| "object_at h (LabelArrayAt a) =
     (if a < length (labelArrays h) then Some (LabelArrayObject (labelArrays h ! a))
      else None)"

fun slice_locs :: "(addr \<Rightarrow> loc) \<Rightarrow> slice \<Rightarrow> loc list" where
  "slice_locs f NilSlice = []"
| "slice_locs f (Slice a n c) = [f a]"

text \<open>The objects a rule owns: the struct and all it refers to.\<close>

definition footprint :: "('s, 'i, 'e, 'l) heap \<Rightarrow> addr \<Rightarrow> loc list" where
  "footprint h r =
     RuleAt r
     # (case EndpointSelector (rules h ! r) of None \<Rightarrow> [] | Some a \<Rightarrow> [SelectorAt a])
     @ slice_locs IngressArrayAt (Ingress (rules h ! r))
     @ slice_locs EgressArrayAt (Egress (rules h ! r))
     @ slice_locs LabelArrayAt (Labels (rules h ! r))"

subsection \<open>DeepCopy\<close>

text \<open>
  Modelled from the spec: \<open>Rule.DeepCopy\<close>, generated code that is missing from the
  sources. The spec says that \<open>CreateDerivative\<close> "deep-copies the receiver" and that the
  copy's "selector, ingress list, labels, and description are value-copies of the source
  at clone time", with "all owned containers copied, not aliased": every object the rule
  owns is copied into a new object of the same content, a nil slice stays nil, and the
  new struct refers to the copies. \<open>None\<close> is the nil pointer, returned for a receiver
  that is no rule.
\<close>

fun copy_slice :: "'x list list \<Rightarrow> slice \<Rightarrow> 'x list list \<times> slice" where
  "copy_slice arrs NilSlice = (arrs, NilSlice)"
| "copy_slice arrs (Slice a n c) = (arrs @ [take n (arrs ! a)], Slice (length arrs) n n)"

fun copy_selector :: "'s list \<Rightarrow> addr option \<Rightarrow> 's list \<times> addr option" where
  "copy_selector sels None = (sels, None)"
| "copy_selector sels (Some a) = (sels @ [sels ! a], Some (length sels))"

definition DeepCopy ::
  "('s, 'i, 'e, 'l) heap \<Rightarrow> addr \<Rightarrow> (('s, 'i, 'e, 'l) heap \<times> addr) option" where
  "DeepCopy h r =
     (if \<not> wf_rule h r then None
      else case copy_selector (selectors h) (EndpointSelector (rules h ! r)) of
        (sels', es') \<Rightarrow>
      case copy_slice (ingressArrays h) (Ingress (rules h ! r)) of
        (ingress', i') \<Rightarrow>
      case copy_slice (egressArrays h) (Egress (rules h ! r)) of
        (egress', e') \<Rightarrow>
      case copy_slice (labelArrays h) (Labels (rules h ! r)) of
        (labels', l') \<Rightarrow>
          Some (\<lparr>rules = rules h @ [\<lparr>EndpointSelector = es', Ingress = i', Egress = e',
                                      Labels = l', Description = Description (rules h ! r)\<rparr>],
                  selectors = sels', ingressArrays = ingress', egressArrays = egress',
                  labelArrays = labels'\<rparr>,
                length (rules h)))"

subsection \<open>append\<close>

text \<open>
  Go's \<open>append\<close> of one element: it writes into the array of the slice when the capacity
  allows it, and otherwise moves the elements to a new, larger array. The capacity of
  the new array is the runtime's choice, \<open>newcap\<close> of the length needed (and never less
  than it); the cells beyond the length hold the zero value of the element type.
\<close>

fun append_slice ::
  "(nat \<Rightarrow> nat) \<Rightarrow> 'x \<Rightarrow> 'x list list \<Rightarrow> slice \<Rightarrow> 'x \<Rightarrow> 'x list list \<times> slice" where
  "append_slice newcap zero arrs NilSlice x =
     (arrs @ [x # replicate (max 1 (newcap 1) - 1) zero],
      Slice (length arrs) 1 (max 1 (newcap 1)))"
| "append_slice newcap zero arrs (Slice a n c) x =
     (if n < c then (arrs[a := (arrs ! a)[n := x]], Slice a (Suc n) c)
      else (arrs @ [take n (arrs ! a) @ x # replicate (max (Suc n) (newcap (Suc n)) - Suc n) zero],
            Slice (length arrs) (Suc n) (max (Suc n) (newcap (Suc n)))))"

subsection \<open>RequiresDerivative and CreateDerivative\<close>

text \<open>
  \<open>EgressRule.RequiresDerivative\<close> and \<open>EgressRule.CreateDerivative\<close> belong to the rule
  variants, outside the sources: they are the parameters \<open>requires\<close> and \<open>derive\<close>. An
  egress rule is a value here, so what they compute depends on that value only.
  \<open>derive\<close> returns the Go pair of a pointer (\<open>None\<close> is nil) and an error.

  \<open>Rule.RequiresDerivative\<close> (lines 103--110) returns its result together with the
  egress entries it has asked, in the order of the calls. The loop runs over the
  indices of \<open>r.Egress\<close>, whose array is \<open>a\<close>.
\<close>

fun requires_loop ::
  "('e \<Rightarrow> bool) \<Rightarrow> 'e list list \<Rightarrow> addr \<Rightarrow> nat list \<Rightarrow> (bool \<times> 'e list) option" where
  "requires_loop requires arrs a [] = Some (False, [])"
| "requires_loop requires arrs a (i # is) =
     (if \<not> (a < length arrs \<and> i < length (arrs ! a)) then None
      else if requires (arrs ! a ! i) then Some (True, [arrs ! a ! i])
      else map_option (\<lambda>(b, asked). (b, arrs ! a ! i # asked))
             (requires_loop requires arrs a is))"

text \<open>\<open>None\<close> is a panic: \<open>r\<close> is no rule of the memory.\<close>

definition RequiresDerivative ::
  "('e \<Rightarrow> bool) \<Rightarrow> ('s, 'i, 'e, 'l) heap \<Rightarrow> addr \<Rightarrow> (bool \<times> 'e list) option" where
  "RequiresDerivative requires h r =
     (if \<not> r < length (rules h) then None
      else case Egress (rules h ! r) of
             NilSlice \<Rightarrow> Some (False, [])
           | Slice a n c \<Rightarrow> requires_loop requires (egressArrays h) a [0..<n])"

datatype derivative = Panic | Return addr "error option"

text \<open>
  The loop of \<open>CreateDerivative\<close> (lines 118--124) over the indices of \<open>r.Egress\<close>, whose
  array is \<open>a\<close>. \<open>Panic\<close> is the dereference of a nil \<open>derivativeEgressRule\<close>, and any
  access outside the memory (which no Go memory allows).
\<close>

fun derive_loop ::
  "('e \<Rightarrow> 'e option \<times> error option) \<Rightarrow> (nat \<Rightarrow> nat) \<Rightarrow> 'e \<Rightarrow> addr \<Rightarrow> addr \<Rightarrow> nat list
     \<Rightarrow> ('s, 'i, 'e, 'l) heap \<Rightarrow> derivative \<times> ('s, 'i, 'e, 'l) heap" where
  "derive_loop derive newcap zero a newRule [] h = (Return newRule None, h)"
| "derive_loop derive newcap zero a newRule (i # is) h =
     (if \<not> (a < length (egressArrays h) \<and> i < length (egressArrays h ! a)
             \<and> newRule < length (rules h)
             \<and> wf_slice (egressArrays h) (Egress (rules h ! newRule)))
      then (Panic, h)
      else case derive (egressArrays h ! a ! i) of
             (derivativeEgressRule, Some err) \<Rightarrow> (Return newRule (Some err), h)
           | (None, None) \<Rightarrow> (Panic, h)
           | (Some derivativeEgressRule, None) \<Rightarrow>
               (case append_slice newcap zero (egressArrays h) (Egress (rules h ! newRule))
                       derivativeEgressRule of
                  (arrs', s') \<Rightarrow>
                    derive_loop derive newcap zero a newRule is
                      (h\<lparr>egressArrays := arrs',
                         rules := (rules h)[newRule := (rules h ! newRule)\<lparr>Egress := s'\<rparr>]\<rparr>)))"

text \<open>\<open>Rule.CreateDerivative\<close> (lines 114--126).\<close>

definition CreateDerivative ::
  "('e \<Rightarrow> 'e option \<times> error option) \<Rightarrow> (nat \<Rightarrow> nat) \<Rightarrow> 'e
     \<Rightarrow> ('s, 'i, 'e, 'l) heap \<Rightarrow> addr \<Rightarrow> derivative \<times> ('s, 'i, 'e, 'l) heap" where
  "CreateDerivative derive newcap zero h r =
     (case DeepCopy h r of
        None \<Rightarrow> (Panic, h)
      | Some (h1, newRule) \<Rightarrow>
          (let h2 = h1\<lparr>egressArrays := egressArrays h1 @ [[]],
                       rules := (rules h1)[newRule :=
                         (rules h1 ! newRule)\<lparr>Egress := Slice (length (egressArrays h1)) 0 0\<rparr>]\<rparr>
           in case Egress (rules h2 ! r) of
                NilSlice \<Rightarrow> (Return newRule None, h2)
              | Slice a n c \<Rightarrow> derive_loop derive newcap zero a newRule [0..<n] h2))"

text \<open>
  What the spec says of the egress list of a derivative: the entries derived before the
  first failure, with that failure. \<open>Inl None\<close> is the panic on a nil pointer.
\<close>

fun derive_prefix ::
  "('e \<Rightarrow> 'e option \<times> error option) \<Rightarrow> 'e list \<Rightarrow> 'e list \<times> (error option + error option)" where
  "derive_prefix derive [] = ([], Inr None)"
| "derive_prefix derive (x # xs) =
     (case derive x of
        (d, Some err) \<Rightarrow> ([], Inr (Some err))
      | (None, None) \<Rightarrow> ([], Inl None)
      | (Some d, None) \<Rightarrow>
          (case derive_prefix derive xs of (ds, res) \<Rightarrow> (d # ds, res)))"

section \<open>Schema lifecycle reconciler (pkg/k8s/apis/cilium.io/v2/register.go)\<close>

subsection \<open>Resource descriptors\<close>

datatype JSONSchemaProps = JSONSchemaProps string

record CustomResourceValidation =
  OpenAPIV3Schema :: "JSONSchemaProps option"

record CustomResourceDefinitionNames =
  Plural :: string
  Singular :: string
  ShortNames :: "string list"
  Kind :: string

record CustomResourceColumnDefinition =
  ColumnName :: string
  ColumnType :: string
  ColumnDescription :: string
  JSONPath :: string

datatype ResourceScope = NamespaceScoped | ClusterScoped | NoScope

record CustomResourceDefinitionSpec =
  Group :: string
  Version :: string
  Names :: CustomResourceDefinitionNames
  Scope :: ResourceScope
  Validation :: "CustomResourceValidation option"
  StatusSubresource :: bool
  AdditionalPrinterColumns :: "CustomResourceColumnDefinition list"

datatype ConditionType = Established | NamesAccepted | OtherConditionType string

datatype ConditionStatus = ConditionTrue | ConditionFalse | ConditionUnknown

record CustomResourceDefinitionCondition =
  Type :: ConditionType
  Status :: ConditionStatus
  Reason :: string

record CustomResourceDefinition =
  Name :: string
  Labels :: "string \<rightharpoonup> string"
  Spec :: CustomResourceDefinitionSpec
  Conditions :: "CustomResourceDefinitionCondition list"

subsection \<open>Constants\<close>

definition CustomResourceDefinitionVersion :: string where
  "CustomResourceDefinitionVersion = ''v2''"

definition CustomResourceDefinitionSchemaVersion :: string where
  "CustomResourceDefinitionSchemaVersion = ''1.15''"

definition CustomResourceDefinitionSchemaVersionKey :: string where
  "CustomResourceDefinitionSchemaVersionKey = ''io.cilium.k8s.crd.schema.version''"

definition CNPKindDefinition :: string where
  "CNPKindDefinition = ''CiliumNetworkPolicy''"

subsection \<open>The version check\<close>

text \<open>
  The version library (github.com/hashicorp/go-version) is not part of the repository:
  \<open>needsUpdate\<close> takes its two operations as a parameter. \<open>NewVersion\<close> returns \<open>None\<close>
  where the library returns an error.
\<close>

record 'v version_pkg =
  NewVersion :: "string \<Rightarrow> 'v option"
  LessThan :: "'v \<Rightarrow> 'v \<Rightarrow> bool"

text \<open>
  \<open>init\<close> sets \<open>comparableCRDSchemaVersion\<close> to
  \<open>version.Must (version.NewVersion CustomResourceDefinitionSchemaVersion)\<close>; \<open>Must\<close>
  panics on an error, so \<open>None\<close> here is a process that never starts.
\<close>

definition init_comparableCRDSchemaVersion :: "'v version_pkg \<Rightarrow> 'v option" where
  "init_comparableCRDSchemaVersion V = NewVersion V CustomResourceDefinitionSchemaVersion"

text \<open>\<open>needsUpdate\<close> (lines 444--461); \<open>cmp\<close> is the package variable \<open>comparableCRDSchemaVersion\<close>.\<close>

definition needsUpdate :: "'v version_pkg \<Rightarrow> 'v \<Rightarrow> CustomResourceDefinition \<Rightarrow> bool" where
  "needsUpdate V cmp clusterCRD =
     (if Validation (Spec clusterCRD) = None then True
      else case Labels clusterCRD CustomResourceDefinitionSchemaVersionKey of
             None \<Rightarrow> True
           | Some v \<Rightarrow>
               (case NewVersion V v of
                  None \<Rightarrow> True
                | Some clusterVersion \<Rightarrow>
                    if LessThan V clusterVersion cmp then True else False))"

subsection \<open>Semantic versions\<close>

text \<open>
  Modelled from the spec: the semantic-version parser and comparison that \<open>needsUpdate\<close>
  calls (\<open>version.NewVersion\<close>, \<open>Version.LessThan\<close>), which are missing from the sources.
  The spec says the label is "a semantic-version string", "monotonically comparable",
  with an unparsable value needing update: a version is a non-empty sequence of decimal
  numbers separated by dots, compared number by number from the left, a missing number
  counting as zero.
\<close>

definition digit_of :: "char \<Rightarrow> nat option" where
  "digit_of c = map_of
     [(CHR ''0'', 0), (CHR ''1'', 1), (CHR ''2'', 2), (CHR ''3'', 3), (CHR ''4'', 4),
      (CHR ''5'', 5), (CHR ''6'', 6), (CHR ''7'', 7), (CHR ''8'', 8), (CHR ''9'', 9)] c"

fun parse_digits :: "nat \<Rightarrow> string \<Rightarrow> nat option" where
  "parse_digits acc [] = Some acc"
| "parse_digits acc (c # cs) =
     (case digit_of c of None \<Rightarrow> None | Some d \<Rightarrow> parse_digits (10 * acc + d) cs)"

definition parse_number :: "string \<Rightarrow> nat option" where
  "parse_number s = (if s = [] then None else parse_digits 0 s)"

fun split_dots :: "string \<Rightarrow> string \<Rightarrow> string list" where
  "split_dots cur [] = [rev cur]"
| "split_dots cur (c # cs) =
     (if c = CHR ''.'' then rev cur # split_dots [] cs else split_dots (c # cur) cs)"

fun parse_segments :: "string list \<Rightarrow> nat list option" where
  "parse_segments [] = Some []"
| "parse_segments (s # ss) =
     (case parse_number s of
        None \<Rightarrow> None
      | Some n \<Rightarrow> (case parse_segments ss of None \<Rightarrow> None | Some ns \<Rightarrow> Some (n # ns)))"

definition semver_NewVersion :: "string \<Rightarrow> nat list option" where
  "semver_NewVersion s = parse_segments (split_dots [] s)"

fun semver_LessThan :: "nat list \<Rightarrow> nat list \<Rightarrow> bool" where
  "semver_LessThan [] [] = False"
| "semver_LessThan [] (y # ys) = (if 0 < y then True else semver_LessThan [] ys)"
| "semver_LessThan (x # xs) [] = (if 0 < x then False else semver_LessThan xs [])"
| "semver_LessThan (x # xs) (y # ys) =
     (if x < y then True else if y < x then False else semver_LessThan xs ys)"

definition semver :: "nat list version_pkg" where
  "semver = \<lparr>NewVersion = semver_NewVersion, LessThan = semver_LessThan\<rparr>"

subsection \<open>The object store client and the observable trace\<close>

text \<open>
  The client (\<open>clientset.ApiextensionsV1beta1().CustomResourceDefinitions()\<close>) is an
  interface: its four operations are parameters, acting on a store state \<open>'s\<close> that the
  reconciler never sees. Any behaviour of the store, also what concurrent reconcilers do
  to it between two calls, is some choice of these functions and of \<open>'s\<close>. A call
  returns either an error or a descriptor (the client's contract: the returned pointer
  is valid whenever the error is nil; the reconciler reads it in that case only).
\<close>

record 's client =
  Get :: "string \<Rightarrow> 's \<Rightarrow> (error + CustomResourceDefinition) \<times> 's"
  Create :: "CustomResourceDefinition \<Rightarrow> 's \<Rightarrow> (error + CustomResourceDefinition) \<times> 's"
  Update :: "CustomResourceDefinition \<Rightarrow> 's \<Rightarrow> (error + CustomResourceDefinition) \<times> 's"
  Delete :: "string \<Rightarrow> 's \<Rightarrow> error option \<times> 's"

text \<open>
  Every call on the store and every wait of a poll is recorded, in order, so that
  "which calls were issued" is a property of the final state.
\<close>

datatype event =
    EvGet string
  | EvCreate CustomResourceDefinition
  | EvUpdate CustomResourceDefinition
  | EvDelete string
  | EvWait

record 's world =
  store :: 's
  trace :: "event list"

definition callGet ::
  "'s client \<Rightarrow> string \<Rightarrow> 's world \<Rightarrow> (error + CustomResourceDefinition) \<times> 's world" where
  "callGet c n w =
     (case Get c n (store w) of (r, s') \<Rightarrow> (r, \<lparr>store = s', trace = trace w @ [EvGet n]\<rparr>))"

definition callCreate ::
  "'s client \<Rightarrow> CustomResourceDefinition \<Rightarrow> 's world
     \<Rightarrow> (error + CustomResourceDefinition) \<times> 's world" where
  "callCreate c d w =
     (case Create c d (store w) of (r, s') \<Rightarrow> (r, \<lparr>store = s', trace = trace w @ [EvCreate d]\<rparr>))"

definition callUpdate ::
  "'s client \<Rightarrow> CustomResourceDefinition \<Rightarrow> 's world
     \<Rightarrow> (error + CustomResourceDefinition) \<times> 's world" where
  "callUpdate c d w =
     (case Update c d (store w) of (r, s') \<Rightarrow> (r, \<lparr>store = s', trace = trace w @ [EvUpdate d]\<rparr>))"

definition callDelete :: "'s client \<Rightarrow> string \<Rightarrow> 's world \<Rightarrow> error option \<times> 's world" where
  "callDelete c n w =
     (case Delete c n (store w) of (r, s') \<Rightarrow> (r, \<lparr>store = s', trace = trace w @ [EvDelete n]\<rparr>))"

subsection \<open>The polling primitive\<close>

text \<open>
  \<open>wait.Poll interval timeout condition\<close> (k8s.io/apimachinery, outside the repository)
  waits for the interval before each run of the condition, returns the condition's error
  as soon as it has one, nil as soon as the condition holds, and \<open>ErrWaitTimeout\<close> when
  the timeout has passed; the condition runs once more after the timeout, so it always
  runs at least once. How many intervals fit before the timeout is a matter of real
  time: it is the parameter \<open>n\<close> (120 for 500 ms and 60 s).
\<close>

definition wait_tick :: "'s world \<Rightarrow> 's world" where
  "wait_tick w = w\<lparr>trace := trace w @ [EvWait]\<rparr>"

fun Poll ::
  "nat \<Rightarrow> ('s world \<Rightarrow> (bool \<times> error option) \<times> 's world) \<Rightarrow> 's world
     \<Rightarrow> error option \<times> 's world" where
  "Poll 0 condition w =
     (case condition (wait_tick w) of
        ((ok, Some err), w') \<Rightarrow> (Some err, w')
      | ((ok, None), w') \<Rightarrow> if ok then (None, w') else (Some ErrWaitTimeout, w'))"
| "Poll (Suc n) condition w =
     (case condition (wait_tick w) of
        ((ok, Some err), w') \<Rightarrow> (Some err, w')
      | ((ok, None), w') \<Rightarrow> if ok then (None, w') else Poll n condition w')"

subsection \<open>createUpdateCRD\<close>

text \<open>
  What a reconciliation reads from its process: the client, the version library and
  the package variable \<open>comparableCRDSchemaVersion\<close>, the number of intervals of a
  poll, the constant \<open>k8sconst.GroupName\<close> (\<open>SchemeGroupVersion.Group\<close>), the embedded
  policy descriptor document as \<open>examplesCrdsCiliumnetworkpoliciesYamlBytes\<close> and
  \<open>yaml.Unmarshal\<close> deliver it, and \<open>option.Config.IdentityAllocationMode\<close> with the
  constant \<open>option.IdentityAllocationModeCRD\<close> (all declared outside the sources).
\<close>

datatype yaml_asset =
    AssetError
  | UnmarshalError
  | Unmarshalled "CustomResourceValidation option"

record ('s, 'v) env =
  clientset :: "'s client"
  version :: "'v version_pkg"
  comparableCRDSchemaVersion :: 'v
  pollTicks :: nat
  GroupName :: string
  examplesCrdsCiliumnetworkpoliciesYaml :: yaml_asset
  IdentityAllocationMode :: string
  IdentityAllocationModeCRD :: string

text \<open>
  Lines 361--373: fetch, and create when the descriptor is not found. \<open>Inl\<close> is an early
  return of \<open>createUpdateCRD\<close> with that error value, \<open>Inr\<close> carries \<open>clusterCRD\<close> on.
\<close>

definition fetchOrCreate ::
  "('s, 'v) env \<Rightarrow> CustomResourceDefinition \<Rightarrow> 's world
     \<Rightarrow> (error option + CustomResourceDefinition) \<times> 's world" where
  "fetchOrCreate E crd w =
     (case callGet (clientset E) (Name crd) w of
        (Inr clusterCRD, w1) \<Rightarrow> (Inr clusterCRD, w1)
      | (Inl err, w1) \<Rightarrow>
          if IsNotFound err then
            (case callCreate (clientset E) crd w1 of
               (Inr clusterCRD, w2) \<Rightarrow> (Inr clusterCRD, w2)
             | (Inl err', w2) \<Rightarrow>
                 if IsAlreadyExists err' then (Inl None, w2) else (Inl (Some err'), w2))
          else (Inl (Some err), w1))"

text \<open>Lines 379--403: the condition of the update poll.\<close>

definition updateCondition ::
  "('s, 'v) env \<Rightarrow> CustomResourceDefinition \<Rightarrow> 's world
     \<Rightarrow> (bool \<times> error option) \<times> 's world" where
  "updateCondition E crd w =
     (case callGet (clientset E) (Name crd) w of
        (Inl err, w1) \<Rightarrow> ((False, Some err), w1)
      | (Inr clusterCRD, w1) \<Rightarrow>
          if needsUpdate (version E) (comparableCRDSchemaVersion E) clusterCRD then
            (case callUpdate (clientset E)
                    (clusterCRD\<lparr>Labels := Labels crd, Spec := Spec crd\<rparr>) w1 of
               (Inr u, w2) \<Rightarrow> ((True, None), w2)
             | (Inl err, w2) \<Rightarrow> ((False, Some err), w2))
          else ((True, None), w1))"

text \<open>Lines 375--408: the version check and the update poll.\<close>

definition updateIfNeeded ::
  "('s, 'v) env \<Rightarrow> CustomResourceDefinition \<Rightarrow> CustomResourceDefinition \<Rightarrow> 's world
     \<Rightarrow> error option \<times> 's world" where
  "updateIfNeeded E crd clusterCRD w =
     (if needsUpdate (version E) (comparableCRDSchemaVersion E) clusterCRD
      then Poll (pollTicks E) (updateCondition E crd) w
      else (None, w))"

text \<open>
  Lines 417--430: the loop over the status conditions. \<open>err\<close> is the condition
  function's own variable, the error of the \<open>Get\<close> just made; each \<open>return\<close> of the loop
  returns it.
\<close>

fun checkConditions ::
  "error option \<Rightarrow> CustomResourceDefinitionCondition list \<Rightarrow> bool \<times> error option" where
  "checkConditions err [] = (False, err)"
| "checkConditions err (cond # conds) =
     (case Type cond of
        Established \<Rightarrow>
          if Status cond = ConditionTrue then (True, err) else checkConditions err conds
      | NamesAccepted \<Rightarrow>
          if Status cond = ConditionFalse then (False, err) else checkConditions err conds
      | OtherConditionType t \<Rightarrow> checkConditions err conds)"

text \<open>Lines 412--431: the condition of the acceptance poll.\<close>

definition establishedCondition ::
  "('s, 'v) env \<Rightarrow> CustomResourceDefinition \<Rightarrow> 's world
     \<Rightarrow> (bool \<times> error option) \<times> 's world" where
  "establishedCondition E crd w =
     (case callGet (clientset E) (Name crd) w of
        (Inl err, w1) \<Rightarrow> ((False, Some err), w1)
      | (Inr crd', w1) \<Rightarrow> (checkConditions None (Conditions crd'), w1))"

text \<open>Lines 432--438: what follows an acceptance poll that returned \<open>err\<close>.\<close>

definition Errorf_unable_to_delete :: "string \<Rightarrow> error \<Rightarrow> error \<Rightarrow> error" where
  "Errorf_unable_to_delete CRDName deleteErr err =
     New_error (''unable to delete k8s '' @ CRDName @ '' CRD '' @ message deleteErr
                @ ''. Deleting CRD due: '' @ message err)"

definition rollback ::
  "('s, 'v) env \<Rightarrow> string \<Rightarrow> CustomResourceDefinition \<Rightarrow> error \<Rightarrow> 's world
     \<Rightarrow> error option \<times> 's world" where
  "rollback E CRDName crd err w =
     (case callDelete (clientset E) (Name crd) w of
        (Some deleteErr, w1) \<Rightarrow> (Some (Errorf_unable_to_delete CRDName deleteErr err), w1)
      | (None, w1) \<Rightarrow> (Some err, w1))"

text \<open>Lines 358--442.\<close>

definition createUpdateCRD ::
  "('s, 'v) env \<Rightarrow> string \<Rightarrow> CustomResourceDefinition \<Rightarrow> 's world
     \<Rightarrow> error option \<times> 's world" where
  "createUpdateCRD E CRDName crd w =
     (case fetchOrCreate E crd w of
        (Inl result, w1) \<Rightarrow> (result, w1)
      | (Inr clusterCRD, w1) \<Rightarrow>
          (case updateIfNeeded E crd clusterCRD w1 of
             (Some err, w2) \<Rightarrow> (Some err, w2)
           | (None, w2) \<Rightarrow>
               (case Poll (pollTicks E) (establishedCondition E crd) w2 of
                  (Some err, w3) \<Rightarrow> rollback E CRDName crd err w3
                | (None, w3) \<Rightarrow> (None, w3))))"

subsection \<open>The four managed resource kinds\<close>

datatype outcome = Panicked | Returned "error option"

text \<open>Lines 146--198.\<close>

definition createCNPCRD :: "('s, 'v) env \<Rightarrow> 's world \<Rightarrow> outcome \<times> 's world" where
  "createCNPCRD E w =
     (let CustomResourceDefinitionSingularName = ''ciliumnetworkpolicy'';
          CustomResourceDefinitionPluralName = ''ciliumnetworkpolicies'';
          CustomResourceDefinitionShortNames = [''cnp'', ''ciliumnp''];
          CustomResourceDefinitionKind = CNPKindDefinition;
          CRDName = CustomResourceDefinitionPluralName @ ''.'' @ GroupName E
      in case examplesCrdsCiliumnetworkpoliciesYaml E of
           AssetError \<Rightarrow> (Panicked, w)
         | UnmarshalError \<Rightarrow> (Panicked, w)
         | Unmarshalled validation \<Rightarrow>
             (let res =
                \<lparr>Name = CRDName,
                 Labels = [CustomResourceDefinitionSchemaVersionKey
                             \<mapsto> CustomResourceDefinitionSchemaVersion],
                 Spec =
                   \<lparr>Group = GroupName E,
                    Version = CustomResourceDefinitionVersion,
                    Names = \<lparr>Plural = CustomResourceDefinitionPluralName,
                              Singular = CustomResourceDefinitionSingularName,
                              ShortNames = CustomResourceDefinitionShortNames,
                              Kind = CustomResourceDefinitionKind\<rparr>,
                    Scope = NamespaceScoped,
                    Validation = validation,
                    StatusSubresource = True,
                    AdditionalPrinterColumns = []\<rparr>,
                 Conditions = []\<rparr>
              in case createUpdateCRD E ''CiliumNetworkPolicy/v2'' res w of
                   (err, w') \<Rightarrow> (Returned err, w')))"

text \<open>Lines 463--469.\<close>

definition cepCRV :: CustomResourceValidation where
  "cepCRV = \<lparr>OpenAPIV3Schema = Some (JSONSchemaProps [])\<rparr>"

text \<open>Lines 202--285.\<close>

definition createCEPCRD :: "('s, 'v) env \<Rightarrow> 's world \<Rightarrow> error option \<times> 's world" where
  "createCEPCRD E w =
     (let CustomResourceDefinitionSingularName = ''ciliumendpoint'';
          CustomResourceDefinitionPluralName = ''ciliumendpoints'';
          CustomResourceDefinitionShortNames = [''cep'', ''ciliumep''];
          CustomResourceDefinitionKind = ''CiliumEndpoint'';
          CRDName = CustomResourceDefinitionPluralName @ ''.'' @ GroupName E;
          res =
            \<lparr>Name = CRDName,
             Labels = Map.empty,
             Spec =
               \<lparr>Group = GroupName E,
                Version = CustomResourceDefinitionVersion,
                Names = \<lparr>Plural = CustomResourceDefinitionPluralName,
                          Singular = CustomResourceDefinitionSingularName,
                          ShortNames = CustomResourceDefinitionShortNames,
                          Kind = CustomResourceDefinitionKind\<rparr>,
                Scope = NamespaceScoped,
                Validation = Some cepCRV,
                StatusSubresource = True,
                AdditionalPrinterColumns =
                  [\<lparr>ColumnName = ''Endpoint ID'', ColumnType = ''integer'',
                    ColumnDescription = ''Cilium endpoint id'', JSONPath = ''.status.id''\<rparr>,
                   \<lparr>ColumnName = ''Identity ID'', ColumnType = ''integer'',
                    ColumnDescription = ''Cilium identity id'',
                    JSONPath = ''.status.identity.id''\<rparr>,
                   \<lparr>ColumnName = ''Ingress Enforcement'', ColumnType = ''boolean'',
                    ColumnDescription = ''Ingress enforcement in the endpoint'',
                    JSONPath = ''.status.policy.ingress.enforcing''\<rparr>,
                   \<lparr>ColumnName = ''Egress Enforcement'', ColumnType = ''boolean'',
                    ColumnDescription = ''Egress enforcement in the endpoint'',
                    JSONPath = ''.status.policy.egress.enforcing''\<rparr>,
                   \<lparr>ColumnName = ''Endpoint State'', ColumnType = ''string'',
                    ColumnDescription = ''Endpoint current state'',
                    JSONPath = ''.status.state''\<rparr>,
                   \<lparr>ColumnName = ''IPv4'', ColumnType = ''string'',
                    ColumnDescription = ''Endpoint IPv4 address'',
                    JSONPath = ''.status.networking.addressing[0].ipv4''\<rparr>,
                   \<lparr>ColumnName = ''IPv6'', ColumnType = ''string'',
                    ColumnDescription = ''Endpoint IPv6 address'',
                    JSONPath = ''.status.networking.addressing[0].ipv6''\<rparr>]\<rparr>,
             Conditions = []\<rparr>
      in createUpdateCRD E ''v2.CiliumEndpoint'' res w)"

text \<open>Lines 289--311.\<close>

definition createNodeCRD :: "('s, 'v) env \<Rightarrow> 's world \<Rightarrow> error option \<times> 's world" where
  "createNodeCRD E w =
     (let res =
            \<lparr>Name = ''ciliumnodes.'' @ GroupName E,
             Labels = Map.empty,
             Spec =
               \<lparr>Group = GroupName E,
                Version = CustomResourceDefinitionVersion,
                Names = \<lparr>Plural = ''ciliumnodes'', Singular = ''ciliumnode'',
                          ShortNames = [''cn''], Kind = ''CiliumNode''\<rparr>,
                Scope = ClusterScoped,
                Validation = None,
                StatusSubresource = True,
                AdditionalPrinterColumns = []\<rparr>,
             Conditions = []\<rparr>
      in createUpdateCRD E ''v2.CiliumNode'' res w)"

text \<open>Lines 315--354.\<close>

definition createIdentityCRD :: "('s, 'v) env \<Rightarrow> 's world \<Rightarrow> error option \<times> 's world" where
  "createIdentityCRD E w =
     (let CustomResourceDefinitionSingularName = ''ciliumidentity'';
          CustomResourceDefinitionPluralName = ''ciliumidentities'';
          CustomResourceDefinitionShortNames = [''ciliumid''];
          CustomResourceDefinitionKind = ''CiliumIdentity'';
          CRDName = CustomResourceDefinitionPluralName @ ''.'' @ GroupName E;
          res =
            \<lparr>Name = CRDName,
             Labels = Map.empty,
             Spec =
               \<lparr>Group = GroupName E,
                Version = CustomResourceDefinitionVersion,
                Names = \<lparr>Plural = CustomResourceDefinitionPluralName,
                          Singular = CustomResourceDefinitionSingularName,
                          ShortNames = CustomResourceDefinitionShortNames,
                          Kind = CustomResourceDefinitionKind\<rparr>,
                Scope = ClusterScoped,
                Validation = None,
                StatusSubresource = True,
                AdditionalPrinterColumns = []\<rparr>,
             Conditions = []\<rparr>
      in createUpdateCRD E ''v2.CiliumIdentity'' res w)"

text \<open>Lines 122--142.\<close>

definition CreateCustomResourceDefinitions ::
  "('s, 'v) env \<Rightarrow> 's world \<Rightarrow> outcome \<times> 's world" where
  "CreateCustomResourceDefinitions E w =
     (case createCNPCRD E w of
        (Panicked, w1) \<Rightarrow> (Panicked, w1)
      | (Returned (Some err), w1) \<Rightarrow> (Returned (Some err), w1)
      | (Returned None, w1) \<Rightarrow>
          (case createCEPCRD E w1 of
             (Some err, w2) \<Rightarrow> (Returned (Some err), w2)
           | (None, w2) \<Rightarrow>
               (case createNodeCRD E w2 of
                  (Some err, w3) \<Rightarrow> (Returned (Some err), w3)
                | (None, w3) \<Rightarrow>
                    if IdentityAllocationMode E = IdentityAllocationModeCRD E then
                      (case createIdentityCRD E w3 of
                         (Some err, w4) \<Rightarrow> (Returned (Some err), w4)
                       | (None, w4) \<Rightarrow> (Returned None, w4))
                    else (Returned None, w3))))"

section \<open>Notions used to state the properties\<close>

subsection \<open>Rules\<close>

text \<open>A slice whose array, if it has one, was allocated at address \<open>A\<close> or later.\<close>

fun fresh_slice :: "nat \<Rightarrow> slice \<Rightarrow> bool" where
  "fresh_slice A NilSlice = True"
| "fresh_slice A (Slice a n c) = (A \<le> a)"

fun slice_elems :: "'x list list \<Rightarrow> slice \<Rightarrow> 'x list" where
  "slice_elems arrs NilSlice = []"
| "slice_elems arrs (Slice a n c) = take n (arrs ! a)"

definition loop_result :: "addr \<Rightarrow> error option + error option \<Rightarrow> derivative" where
  "loop_result n res = (case res of Inl p \<Rightarrow> Panic | Inr e \<Rightarrow> Return n e)"

text \<open>
  The state after \<open>CreateDerivative\<close> on the rule \<open>r\<close> of the memory \<open>h\<close>: the memory has
  grown by one rule, at the address \<open>length (rules h)\<close>, and by the objects that rule
  owns; nothing older has changed.
\<close>

definition derivative_post ::
  "('e \<Rightarrow> 'e option \<times> error option) \<Rightarrow> ('s, 'i, 'e, 'l) heap \<Rightarrow> addr
     \<Rightarrow> derivative \<Rightarrow> ('s, 'i, 'e, 'l) heap \<Rightarrow> bool" where
  "derivative_post derive h r out h' =
     (let n = length (rules h);
          es = slice_elems (egressArrays h) (Egress (rules h ! r))
      in length (rules h') = Suc n
       \<and> prefix (rules h) (rules h')
       \<and> prefix (selectors h) (selectors h')
       \<and> prefix (ingressArrays h) (ingressArrays h')
       \<and> prefix (egressArrays h) (egressArrays h')
       \<and> prefix (labelArrays h) (labelArrays h')
       \<and> wf_rule h' n
       \<and> (\<forall>a. EndpointSelector (rules h' ! n) = Some a \<longrightarrow> length (selectors h) \<le> a)
       \<and> fresh_slice (length (ingressArrays h)) (Ingress (rules h' ! n))
       \<and> fresh_slice (length (egressArrays h)) (Egress (rules h' ! n))
       \<and> fresh_slice (length (labelArrays h)) (Rule.Labels (rules h' ! n))
       \<and> selector (rule_value h' n) = selector (rule_value h r)
       \<and> ingress (rule_value h' n) = ingress (rule_value h r)
       \<and> labels (rule_value h' n) = labels (rule_value h r)
       \<and> description (rule_value h' n) = description (rule_value h r)
       \<and> egress (rule_value h' n) = Some (fst (derive_prefix derive es))
       \<and> out = loop_result n (snd (derive_prefix derive es)))"

text \<open>
  A rule to run the model on: one ingress entry, two egress entries that name groups,
  of which the second cannot be resolved.
\<close>

definition example_heap :: "(string, string, string, string) heap" where
  "example_heap =
     \<lparr>rules = [\<lparr>EndpointSelector = Some 0, Ingress = Slice 0 1 1, Egress = Slice 0 2 2,
                 Rule.Labels = Slice 0 1 1, Description = ''reach the groups''\<rparr>],
      selectors = [''app=foo''],
      ingressArrays = [[''fromEndpoints app=bar'']],
      egressArrays = [[''toGroups aws'', ''toGroups gone'']],
      labelArrays = [[''io.cilium.k8s.policy.name=groups'']]\<rparr>"

definition example_derive :: "string \<Rightarrow> string option \<times> error option" where
  "example_derive e =
     (if e = ''toGroups aws'' then (Some ''toCIDRSet 10.0.0.0/8'', None)
      else (Some [], Some (New_error ''cannot resolve the group'')))"

definition example_result :: "derivative \<times> (string, string, string, string) heap" where
  "example_result = CreateDerivative example_derive (\<lambda>n. 2 * n) [] example_heap 0"

text \<open>A rule whose egress list is one entry that cannot be resolved.\<close>

definition single_heap :: "(string, string, string, string) heap" where
  "single_heap =
     \<lparr>rules = [\<lparr>EndpointSelector = None, Ingress = NilSlice, Egress = Slice 0 1 1,
                 Rule.Labels = NilSlice, Description = []\<rparr>],
      selectors = [], ingressArrays = [], egressArrays = [[''toGroups gone'']],
      labelArrays = []\<rparr>"

definition example_requires :: "string \<Rightarrow> bool" where
  "example_requires e = prefix ''toGroups'' e"

subsection \<open>Traces of the reconciler\<close>

definition is_established :: "CustomResourceDefinition \<Rightarrow> bool" where
  "is_established d =
     (\<exists>c \<in> set (Conditions d). Type c = Established \<and> Status c = ConditionTrue)"

definition names_rejected :: "CustomResourceDefinition \<Rightarrow> bool" where
  "names_rejected d =
     (\<exists>c \<in> set (Conditions d). Type c = NamesAccepted \<and> Status c = ConditionFalse)"

text \<open>
  The scan of the status conditions stops at the first Established that is true and at
  the first NamesAccepted that is false: a descriptor passes it when an Established
  that is true stands before every NamesAccepted that is false.
\<close>

definition established_before_conflict :: "CustomResourceDefinition \<Rightarrow> bool" where
  "established_before_conflict d =
     (\<exists>c \<in> set (takeWhile (\<lambda>c. \<not> (Type c = NamesAccepted \<and> Status c = ConditionFalse))
                    (Conditions d)).
        Type c = Established \<and> Status c = ConditionTrue)"

text \<open>The names fetched from the store, in the order of the calls.\<close>

fun fetches :: "event list \<Rightarrow> string list" where
  "fetches [] = []"
| "fetches (EvGet n # evs) = n # fetches evs"
| "fetches (ev # evs) = fetches evs"

fun is_mutation :: "event \<Rightarrow> bool" where
  "is_mutation (EvCreate d) = True"
| "is_mutation (EvUpdate d) = True"
| "is_mutation (EvDelete n) = True"
| "is_mutation ev = False"

text \<open>\<open>k\<close> rounds of a poll that fetches the descriptor \<open>n\<close>.\<close>

definition polls :: "string \<Rightarrow> nat \<Rightarrow> event list" where
  "polls n k = concat (replicate k [EvWait, EvGet n])"

text \<open>
  The descriptors a run has worked on, in order: every reconciliation begins with the
  fetch of its own descriptor and fetches no other.
\<close>

definition attempted :: "event list \<Rightarrow> string list" where
  "attempted tr = remdups_adj (fetches tr)"

definition kind_names :: "('s, 'v) env \<Rightarrow> string list" where
  "kind_names E =
     [''ciliumnetworkpolicies.'' @ GroupName E, ''ciliumendpoints.'' @ GroupName E,
      ''ciliumnodes.'' @ GroupName E, ''ciliumidentities.'' @ GroupName E]"

text \<open>
  Reconciling a list of kinds in order, as the claim words it: each kind in turn, and
  the first outcome that is not a nil error ends the run.
\<close>

definition returned :: "('w \<Rightarrow> error option \<times> 'w) \<Rightarrow> 'w \<Rightarrow> outcome \<times> 'w" where
  "returned f w = (case f w of (err, w') \<Rightarrow> (Returned err, w'))"

fun first_error :: "('w \<Rightarrow> outcome \<times> 'w) list \<Rightarrow> 'w \<Rightarrow> outcome \<times> 'w" where
  "first_error [] w = (Returned None, w)"
| "first_error (f # fs) w =
     (case f w of (Returned None, w') \<Rightarrow> first_error fs w' | (r, w') \<Rightarrow> (r, w'))"

definition managed_kinds :: "('s, 'v) env \<Rightarrow> ('s world \<Rightarrow> outcome \<times> 's world) list" where
  "managed_kinds E =
     [createCNPCRD E, returned (createCEPCRD E), returned (createNodeCRD E)]
     @ (if IdentityAllocationMode E = IdentityAllocationModeCRD E
        then [returned (createIdentityCRD E)] else [])"

subsection \<open>Stores to run the reconciler against\<close>

definition stored_with_label :: "string \<Rightarrow> CustomResourceDefinition" where
  "stored_with_label v =
     \<lparr>Name = ''ciliumnetworkpolicies.cilium.io'',
      Labels = [CustomResourceDefinitionSchemaVersionKey \<mapsto> v],
      Spec = \<lparr>Group = ''cilium.io'', Version = ''v2'',
               Names = \<lparr>Plural = ''ciliumnetworkpolicies'', Singular = ''ciliumnetworkpolicy'',
                         ShortNames = [''cnp'', ''ciliumnp''], Kind = ''CiliumNetworkPolicy''\<rparr>,
               Scope = NamespaceScoped,
               Validation = Some \<lparr>OpenAPIV3Schema = Some (JSONSchemaProps [])\<rparr>,
               StatusSubresource = True, AdditionalPrinterColumns = []\<rparr>,
      Conditions = []\<rparr>"

definition desired :: CustomResourceDefinition where
  "desired = stored_with_label CustomResourceDefinitionSchemaVersion"

definition with_conditions ::
  "CustomResourceDefinitionCondition list \<Rightarrow> CustomResourceDefinition
     \<Rightarrow> CustomResourceDefinition" where
  "with_conditions cs d = d\<lparr>Conditions := cs\<rparr>"

definition established_true :: CustomResourceDefinitionCondition where
  "established_true =
     \<lparr>Type = Established, Status = ConditionTrue, Reason = ''InitialNamesAccepted''\<rparr>"

definition names_conflict :: CustomResourceDefinitionCondition where
  "names_conflict = \<lparr>Type = NamesAccepted, Status = ConditionFalse, Reason = ''conflict''\<rparr>"

definition current :: CustomResourceDefinition where
  "current = with_conditions [established_true] desired"

definition pending :: CustomResourceDefinition where
  "pending = with_conditions [] desired"

text \<open>Two descriptors that report both conditions, in the two orders.\<close>

definition conflict_then_established :: CustomResourceDefinition where
  "conflict_then_established = with_conditions [names_conflict, established_true] desired"

definition established_then_conflict :: CustomResourceDefinition where
  "established_then_conflict = with_conditions [established_true, names_conflict] desired"

definition not_found :: error where
  "not_found = Error StatusReasonNotFound ''customresourcedefinitions not found''"

definition already_exists :: error where
  "already_exists = Error StatusReasonAlreadyExists ''customresourcedefinitions already exists''"

definition refused :: error where
  "refused = New_error ''connection refused''"

definition forbidden :: error where
  "forbidden = New_error ''forbidden''"

text \<open>A store that answers each call with the next entry of a script.\<close>

fun next_response ::
  "(error + CustomResourceDefinition) list
     \<Rightarrow> (error + CustomResourceDefinition) \<times> (error + CustomResourceDefinition) list" where
  "next_response [] = (Inl (New_error ''no response''), [])"
| "next_response (x # xs) = (x, xs)"

definition scripted :: "(error + CustomResourceDefinition) list client" where
  "scripted =
     \<lparr>Get = (\<lambda>n s. next_response s),
      Create = (\<lambda>d s. next_response s),
      Update = (\<lambda>d s. next_response s),
      Delete = (\<lambda>n s. case next_response s of
                         (Inl e, s') \<Rightarrow> (Some e, s') | (Inr d, s') \<Rightarrow> (None, s'))\<rparr>"

text \<open>A store that holds the descriptor \<open>d\<close> and never changes.\<close>

definition steady :: "CustomResourceDefinition \<Rightarrow> unit client" where
  "steady d =
     \<lparr>Get = (\<lambda>n s. (Inr d, s)),
      Create = (\<lambda>d' s. (Inl (Error StatusReasonAlreadyExists ''already exists''), s)),
      Update = (\<lambda>d' s. (Inr d', s)),
      Delete = (\<lambda>n s. (None, s))\<rparr>"

text \<open>
  A store in memory that behaves as the API server does: a descriptor it creates is
  established at once. \<open>overtaken c\<close> is the store \<open>c\<close> as a reconciler sees it that loses
  the race for the create: the rival creates the same descriptor just before.
\<close>

definition memory :: "(string \<times> CustomResourceDefinition) list client" where
  "memory =
     \<lparr>Get = (\<lambda>n s. case map_of s n of
                      None \<Rightarrow> (Inl not_found, s) | Some d \<Rightarrow> (Inr d, s)),
      Create = (\<lambda>d s. case map_of s (Name d) of
                         None \<Rightarrow> (Inr (with_conditions [established_true] d),
                                  (Name d, with_conditions [established_true] d) # s)
                       | Some d' \<Rightarrow> (Inl already_exists, s)),
      Update = (\<lambda>d s. case map_of s (Name d) of
                         None \<Rightarrow> (Inl not_found, s)
                       | Some d' \<Rightarrow> (Inr d, (Name d, d) # s)),
      Delete = (\<lambda>n s. case map_of s n of
                         None \<Rightarrow> (Some not_found, s)
                       | Some d' \<Rightarrow> (None, filter (\<lambda>kv. fst kv \<noteq> n) s))\<rparr>"

definition overtaken :: "'s client \<Rightarrow> 's client" where
  "overtaken c = c\<lparr>Create := (\<lambda>d s. case Create c d s of (r, s') \<Rightarrow> Create c d s')\<rparr>"

text \<open>An agent of schema version 1.15 whose identities are not allocated through the store.\<close>

definition agent :: "'s client \<Rightarrow> nat \<Rightarrow> ('s, nat list) env" where
  "agent c n =
     \<lparr>clientset = c, version = semver, comparableCRDSchemaVersion = [1, 15],
      pollTicks = n, GroupName = ''cilium.io'',
      examplesCrdsCiliumnetworkpoliciesYaml =
        Unmarshalled (Some \<lparr>OpenAPIV3Schema = Some (JSONSchemaProps [])\<rparr>),
      IdentityAllocationMode = ''kvstore'', IdentityAllocationModeCRD = ''crd''\<rparr>"

section \<open>Properties of the rule model\<close>

subsection \<open>append and the loop of CreateDerivative\<close>

lemma append_slice_frame:
  assumes "wf_slice arrs s" and "fresh_slice A s" and "A \<le> length arrs"
    and "append_slice newcap zero arrs s x = (arrs', s')"
  shows "wf_slice arrs' s'" and "fresh_slice A s'" and "length arrs \<le> length arrs'"
    and "take A arrs' = take A arrs"
    and "slice_value arrs' s' = Some (slice_elems arrs s @ [x])"
    and "s' \<noteq> NilSlice"
proof -
  show "wf_slice arrs' s'" using assms
    by (cases s) (auto simp: nth_append split: if_splits)
  show "fresh_slice A s'" using assms
    by (cases s) (auto split: if_splits)
  show "length arrs \<le> length arrs'" using assms
    by (cases s) (auto split: if_splits)
  show "take A arrs' = take A arrs" using assms
    by (cases s) (auto split: if_splits)
  show "slice_value arrs' s' = Some (slice_elems arrs s @ [x])" using assms
    by (cases s) (auto simp: take_Suc_conv_app_nth split: if_splits)
  show "s' \<noteq> NilSlice" using assms
    by (cases s) (auto split: if_splits)
qed

lemma derive_prefix_Cons_err:
  "derive x = (p, Some err) \<Longrightarrow> derive_prefix derive (x # xs) = ([], Inr (Some err))"
  by (simp split: option.splits)

lemma derive_prefix_Cons_nil:
  "derive x = (None, None) \<Longrightarrow> derive_prefix derive (x # xs) = ([], Inl None)"
  by simp

lemma derive_prefix_Cons_ok:
  "derive x = (Some d, None) \<Longrightarrow>
     derive_prefix derive (x # xs) =
       (d # fst (derive_prefix derive xs), snd (derive_prefix derive xs))"
  by (simp add: split_beta)

lemma derive_loop_Cons_err:
  assumes "a < length (egressArrays h)" and "i < length (egressArrays h ! a)"
    and "n < length (rules h)" and "wf_slice (egressArrays h) (Egress (rules h ! n))"
    and "derive (egressArrays h ! a ! i) = (p, Some err)"
  shows "derive_loop derive newcap zero a n (i # is) h = (Return n (Some err), h)"
  using assms by (simp add: derive_loop.simps(2) split: option.splits)

lemma derive_loop_Cons_nil:
  assumes "a < length (egressArrays h)" and "i < length (egressArrays h ! a)"
    and "n < length (rules h)" and "wf_slice (egressArrays h) (Egress (rules h ! n))"
    and "derive (egressArrays h ! a ! i) = (None, None)"
  shows "derive_loop derive newcap zero a n (i # is) h = (Panic, h)"
  using assms by (simp add: derive_loop.simps(2))

lemma derive_loop_Cons_ok:
  assumes "a < length (egressArrays h)" and "i < length (egressArrays h ! a)"
    and "n < length (rules h)" and "wf_slice (egressArrays h) (Egress (rules h ! n))"
    and "derive (egressArrays h ! a ! i) = (Some d, None)"
    and "append_slice newcap zero (egressArrays h) (Egress (rules h ! n)) d = (arrs', s')"
  shows "derive_loop derive newcap zero a n (i # is) h =
           derive_loop derive newcap zero a n is
             (h\<lparr>egressArrays := arrs',
                rules := (rules h)[n := (rules h ! n)\<lparr>Egress := s'\<rparr>]\<rparr>)"
  using assms by (simp add: derive_loop.simps(2))

declare derive_prefix.simps(2) [simp del]

declare derive_loop.simps(2) [simp del]

text \<open>
  The loop writes to the new rule and to arrays allocated for it, and to nothing else:
  induction on the indices still to visit, for any memory in which the egress slice of
  the new rule is fresh.
\<close>

lemma derive_loop_frame:
  assumes "derive_loop derive newcap zero a n is h = (out, h')"
    and "n < length (rules h)"
    and "wf_slice (egressArrays h) (Egress (rules h ! n))"
    and "fresh_slice A (Egress (rules h ! n))"
    and "a < A" and "A \<le> length (egressArrays h)"
    and "\<forall>i \<in> set is. i < length (egressArrays h ! a)"
  shows "rules h' = (rules h)[n := (rules h ! n)\<lparr>Egress := Egress (rules h' ! n)\<rparr>]
       \<and> selectors h' = selectors h \<and> ingressArrays h' = ingressArrays h
       \<and> labelArrays h' = labelArrays h
       \<and> take A (egressArrays h') = take A (egressArrays h)
       \<and> length (egressArrays h) \<le> length (egressArrays h')
       \<and> wf_slice (egressArrays h') (Egress (rules h' ! n))
       \<and> fresh_slice A (Egress (rules h' ! n))
       \<and> (Egress (rules h ! n) \<noteq> NilSlice \<longrightarrow> Egress (rules h' ! n) \<noteq> NilSlice)
       \<and> slice_elems (egressArrays h') (Egress (rules h' ! n)) =
           slice_elems (egressArrays h) (Egress (rules h ! n))
           @ fst (derive_prefix derive (map (\<lambda>i. egressArrays h ! a ! i) is))
       \<and> out = loop_result n (snd (derive_prefix derive (map (\<lambda>i. egressArrays h ! a ! i) is)))"
  using assms
proof (induction "is" arbitrary: h)
  case Nil
  then show ?case by (simp add: loop_result_def)
next
  case (Cons i "is")
  let ?R = "rules h ! n"
  let ?x = "egressArrays h ! a ! i"
  have guard: "a < length (egressArrays h)" "i < length (egressArrays h ! a)"
    using Cons.prems by auto
  obtain p e where d: "derive ?x = (p, e)" by (metis surj_pair)
  show ?case
  proof (cases e)
    case (Some err)
    then have "out = Return n (Some err)" "h' = h"
      using Cons.prems(1) derive_loop_Cons_err [OF guard Cons.prems(2,3), of derive p err]  d
      by auto
    then show ?thesis using derive_prefix_Cons_err [of derive ?x p err] d Some Cons.prems
      by (simp add: loop_result_def)
  next
    case None
    show ?thesis
    proof (cases p)
      case pn: None
      then have "out = Panic" "h' = h"
        using Cons.prems(1) derive_loop_Cons_nil [OF guard Cons.prems(2,3), of derive] d None
        by auto
      then show ?thesis using derive_prefix_Cons_nil [of derive ?x] d None pn Cons.prems
        by (simp add: loop_result_def)
    next
      case (Some dv)
      obtain arrs' s' where ap:
        "append_slice newcap zero (egressArrays h) (Egress ?R) dv = (arrs', s')"
        by (metis surj_pair)
      let ?h1 = "h\<lparr>egressArrays := arrs', rules := (rules h)[n := ?R\<lparr>Egress := s'\<rparr>]\<rparr>"
      note fr = append_slice_frame [OF Cons.prems(3) Cons.prems(4) Cons.prems(6) ap]
      have run: "derive_loop derive newcap zero a n is ?h1 = (out, h')"
        using Cons.prems(1) derive_loop_Cons_ok [OF guard Cons.prems(2,3) _ ap, of derive]
          d None Some by simp
      have eg1: "Egress (rules ?h1 ! n) = s'" using Cons.prems(2) by simp
      have same: "arrs' ! a = egressArrays h ! a"
        using fr(4) Cons.prems(5) by (metis nth_take)
      have p2: "n < length (rules ?h1)" using Cons.prems(2) by simp
      have p3: "wf_slice (egressArrays ?h1) (Egress (rules ?h1 ! n))"
        using fr(1) eg1 by simp
      have p4: "fresh_slice A (Egress (rules ?h1 ! n))" using fr(2) eg1 by simp
      have p6: "A \<le> length (egressArrays ?h1)" using fr(3) Cons.prems(6) by simp
      have p7: "\<forall>i \<in> set is. i < length (egressArrays ?h1 ! a)"
        using Cons.prems(7) same by simp
      note ih = Cons.IH [OF run p2 p3 p4 Cons.prems(5) p6 p7]
      have dp: "derive_prefix derive (map (\<lambda>i. egressArrays h ! a ! i) (i # is)) =
          (dv # fst (derive_prefix derive (map (\<lambda>i. egressArrays h ! a ! i) is)),
           snd (derive_prefix derive (map (\<lambda>i. egressArrays h ! a ! i) is)))"
        using derive_prefix_Cons_ok [of derive ?x dv] d None Some by simp
      have same_map: "map (\<lambda>i. egressArrays ?h1 ! a ! i) is = map (\<lambda>i. egressArrays h ! a ! i) is"
        using same by simp
      have elems1: "slice_elems (egressArrays ?h1) (Egress (rules ?h1 ! n)) =
          slice_elems (egressArrays h) (Egress ?R) @ [dv]"
        using fr(5) fr(6) eg1 by (cases s') simp_all
      have r: "rules h' = (rules h)[n := ?R\<lparr>Egress := Egress (rules h' ! n)\<rparr>]"
        using ih Cons.prems(2) by simp
      have "take A (egressArrays h') = take A (egressArrays h)"
        using ih fr(4) by simp
      moreover have "length (egressArrays h) \<le> length (egressArrays h')"
        using ih fr(3) by simp
      moreover have "Egress (rules h' ! n) \<noteq> NilSlice" using ih eg1 fr(6) by simp
      moreover have "slice_elems (egressArrays h') (Egress (rules h' ! n)) =
           slice_elems (egressArrays h) (Egress ?R)
           @ fst (derive_prefix derive (map (\<lambda>i. egressArrays h ! a ! i) (i # is)))"
        using ih elems1 unfolding dp same_map by simp
      moreover have "out =
          loop_result n (snd (derive_prefix derive (map (\<lambda>i. egressArrays h ! a ! i) (i # is))))"
        using ih unfolding dp same_map by simp
      ultimately show ?thesis using r ih by simp
    qed
  qed
qed

subsection \<open>DeepCopy and CreateDerivative\<close>

lemma copy_slice_facts:
  assumes "wf_slice arrs s" and "copy_slice arrs s = (arrs', s')"
  shows "prefix arrs arrs'" and "wf_slice arrs' s'" and "fresh_slice (length arrs) s'"
    and "slice_value arrs' s' = slice_value arrs s"
  using assms by (cases s; auto simp: nth_append)+

lemma copy_selector_facts:
  assumes "wf_selector sels p" and "copy_selector sels p = (sels', p')"
  shows "prefix sels sels'" and "wf_selector sels' p'"
    and "\<forall>a. p' = Some a \<longrightarrow> length sels \<le> a"
    and "map_option (\<lambda>a. sels' ! a) p' = map_option (\<lambda>a. sels ! a) p"
  using assms by (cases p; auto simp: wf_selector_def nth_append)+

lemma map_nth_upt_take: "n \<le> length xs \<Longrightarrow> map (\<lambda>i. xs ! i) [0..<n] = take n xs"
  by (simp add: list_eq_iff_nth_eq)

lemma prefix_nth: "prefix xs ys \<Longrightarrow> i < length xs \<Longrightarrow> ys ! i = xs ! i"
  by (auto simp: prefix_def nth_append)

lemma CreateDerivative_post:
  assumes wf: "wf_rule h r" and run: "CreateDerivative derive newcap zero h r = (out, h')"
  shows "derivative_post derive h r out h'"
proof -
  let ?R = "rules h ! r"
  let ?n = "length (rules h)"
  let ?A = "length (egressArrays h)"
  have r: "r < ?n" and wsel: "wf_selector (selectors h) (EndpointSelector ?R)"
    and wi: "wf_slice (ingressArrays h) (Ingress ?R)"
    and we: "wf_slice (egressArrays h) (Egress ?R)"
    and wl: "wf_slice (labelArrays h) (Rule.Labels ?R)"
    using wf by (simp_all add: wf_rule_def)
  obtain S' es' where cs: "copy_selector (selectors h) (EndpointSelector ?R) = (S', es')"
    by (metis surj_pair)
  obtain I' i' where ci: "copy_slice (ingressArrays h) (Ingress ?R) = (I', i')"
    by (metis surj_pair)
  obtain E' e' where ce: "copy_slice (egressArrays h) (Egress ?R) = (E', e')"
    by (metis surj_pair)
  obtain L' l' where cl: "copy_slice (labelArrays h) (Rule.Labels ?R) = (L', l')"
    by (metis surj_pair)
  note fs = copy_selector_facts [OF wsel cs]
  note fi = copy_slice_facts [OF wi ci]
  note fe = copy_slice_facts [OF we ce]
  note fl = copy_slice_facts [OF wl cl]
  let ?Rc = "\<lparr>EndpointSelector = es', Ingress = i', Egress = e', Rule.Labels = l',
              Description = Description ?R\<rparr>"
  let ?R2 = "\<lparr>EndpointSelector = es', Ingress = i', Egress = Slice (length E') 0 0,
              Rule.Labels = l', Description = Description ?R\<rparr>"
  let ?h2 = "\<lparr>rules = rules h @ [?R2], selectors = S', ingressArrays = I',
              egressArrays = E' @ [[]], labelArrays = L'\<rparr>"
  have dc: "DeepCopy h r =
      Some (\<lparr>rules = rules h @ [?Rc], selectors = S', ingressArrays = I',
              egressArrays = E', labelArrays = L'\<rparr>, ?n)"
    using wf cs ci ce cl by (simp add: DeepCopy_def)
  have eg_r: "Egress ((rules h @ [x]) ! r) = Egress ?R" for x
    using r by (simp add: nth_append)
  have AE: "?A \<le> length E'" using fe(1) by (simp add: prefix_length_le)
  have pe2: "prefix (egressArrays h) (E' @ [[]])" using fe(1) by (simp add: prefix_prefix)
  have goal: "length (rules h') = Suc ?n
       \<and> rules h' = rules h @ [?R2\<lparr>Egress := Egress (rules h' ! ?n)\<rparr>]
       \<and> selectors h' = S' \<and> ingressArrays h' = I' \<and> labelArrays h' = L'
       \<and> prefix (egressArrays h) (egressArrays h')
       \<and> wf_slice (egressArrays h') (Egress (rules h' ! ?n))
       \<and> fresh_slice ?A (Egress (rules h' ! ?n))
       \<and> Egress (rules h' ! ?n) \<noteq> NilSlice
       \<and> slice_elems (egressArrays h') (Egress (rules h' ! ?n)) =
            fst (derive_prefix derive (slice_elems (egressArrays h) (Egress ?R)))
       \<and> out = loop_result ?n (snd (derive_prefix derive (slice_elems (egressArrays h) (Egress ?R))))"
  proof (cases "Egress ?R")
    case NilSlice
    then have "out = Return ?n None" "h' = ?h2"
      using run r by (simp_all add: CreateDerivative_def dc Let_def nth_append)
    then show ?thesis using NilSlice AE pe2 by (simp add: loop_result_def)
  next
    case (Slice a m c)
    then have am: "a < ?A" "m \<le> c" "c \<le> length (egressArrays h ! a)" using we by simp_all
    have run3: "derive_loop derive newcap zero a ?n [0..<m] ?h2 = (out, h')"
      using run r Slice by (simp add: CreateDerivative_def dc Let_def nth_append)
    have same: "(E' @ [[]]) ! a = egressArrays h ! a"
      using prefix_nth [OF pe2 am(1)] .
    have q2: "?n < length (rules ?h2)" by simp
    have q3: "wf_slice (egressArrays ?h2) (Egress (rules ?h2 ! ?n))" by simp
    have q4: "fresh_slice ?A (Egress (rules ?h2 ! ?n))" using AE by simp
    have q6: "?A \<le> length (egressArrays ?h2)" using AE by simp
    have q7: "\<forall>i \<in> set [0..<m]. i < length (egressArrays ?h2 ! a)"
      using same am by simp
    note lf = derive_loop_frame [OF run3 q2 q3 q4 am(1) q6 q7]
    have es: "map (\<lambda>i. egressArrays ?h2 ! a ! i) [0..<m] = slice_elems (egressArrays h) (Egress ?R)"
      using same am Slice map_nth_upt_take [of m "egressArrays h ! a"] by simp
    from pe2 obtain zs where zs: "E' @ [[]] = egressArrays h @ zs"
      by (auto simp: prefix_def)
    have "take ?A (egressArrays ?h2) = take ?A (egressArrays h @ zs)"
      using zs by (simp del: take_append)
    then have "take ?A (egressArrays ?h2) = egressArrays h" by simp
    then have tk: "take ?A (egressArrays h') = egressArrays h"
      using lf by metis
    have "prefix (egressArrays h) (egressArrays h')"
      using tk by (metis take_is_prefix)
    moreover have "rules h' = rules h @ [?R2\<lparr>Egress := Egress (rules h' ! ?n)\<rparr>]"
      using lf by simp
    moreover have "length (rules h') = Suc ?n"
      using calculation(2) by (metis length_append_singleton)
    ultimately show ?thesis using lf unfolding es by simp
  qed
  then have rh': "rules h' = rules h @ [?R2\<lparr>Egress := Egress (rules h' ! ?n)\<rparr>]" by simp
  have nth_n: "rules h' ! ?n = ?R2\<lparr>Egress := Egress (rules h' ! ?n)\<rparr>"
    by (subst rh') simp
  have sel_n: "EndpointSelector (rules h' ! ?n) = es'" by (subst nth_n) simp
  have ing_n: "Ingress (rules h' ! ?n) = i'" by (subst nth_n) simp
  have lab_n: "Rule.Labels (rules h' ! ?n) = l'" by (subst nth_n) simp
  have desc_n: "Description (rules h' ! ?n) = Description ?R" by (subst nth_n) simp
  have eg_val: "egress (rule_value h' ?n) =
      Some (fst (derive_prefix derive (slice_elems (egressArrays h) (Egress ?R))))"
    using goal by (cases "Egress (rules h' ! ?n)") (simp_all add: rule_value_def)
  have "wf_rule h' ?n"
    using goal fs(2) fi(2) fl(2) sel_n ing_n lab_n by (simp add: wf_rule_def)
  moreover have "prefix (rules h) (rules h')" by (subst rh') simp
  moreover have "selector (rule_value h' ?n) = selector (rule_value h r)"
    using goal fs(4) sel_n by (simp add: rule_value_def)
  moreover have "ingress (rule_value h' ?n) = ingress (rule_value h r)"
    using goal fi(4) ing_n by (simp add: rule_value_def)
  moreover have "labels (rule_value h' ?n) = labels (rule_value h r)"
    using goal fl(4) lab_n by (simp add: rule_value_def)
  moreover have "description (rule_value h' ?n) = description (rule_value h r)"
    using desc_n by (simp add: rule_value_def)
  ultimately show ?thesis
    unfolding derivative_post_def Let_def
    using goal fs(1,3) fi(1,3) fl(1,3) sel_n ing_n lab_n eg_val by simp
qed

subsection \<open>What a rule is worth depends on what it owns only\<close>

lemma rule_value_cong:
  assumes "wf_rule h r" and "\<forall>l \<in> set (footprint h r). object_at h2 l = object_at h l"
  shows "rule_value h2 r = rule_value h r" and "footprint h2 r = footprint h r"
    and "wf_rule h2 r"
proof -
  have r: "r < length (rules h)" using assms(1) by (simp add: wf_rule_def)
  have "object_at h2 (RuleAt r) = object_at h (RuleAt r)"
    using assms(2) by (simp add: footprint_def)
  then have R: "r < length (rules h2)" "rules h2 ! r = rules h ! r"
    using r by (auto split: if_splits)
  let ?R = "rules h ! r"
  have sel: "wf_selector (selectors h2) (EndpointSelector ?R)
      \<and> map_option (\<lambda>a. selectors h2 ! a) (EndpointSelector ?R) =
        map_option (\<lambda>a. selectors h ! a) (EndpointSelector ?R)"
  proof (cases "EndpointSelector ?R")
    case None
    then show ?thesis by (simp add: wf_selector_def)
  next
    case (Some a)
    then have "a < length (selectors h)" using assms(1) by (simp add: wf_rule_def wf_selector_def)
    moreover have "object_at h2 (SelectorAt a) = object_at h (SelectorAt a)"
      using assms(2) Some by (simp add: footprint_def)
    ultimately show ?thesis using Some by (auto simp: wf_selector_def split: if_splits)
  qed
  have ing: "wf_slice (ingressArrays h2) (Ingress ?R)
      \<and> slice_value (ingressArrays h2) (Ingress ?R) = slice_value (ingressArrays h) (Ingress ?R)"
  proof (cases "Ingress ?R")
    case NilSlice
    then show ?thesis by simp
  next
    case (Slice a n c)
    then have "a < length (ingressArrays h)" "n \<le> c" "c \<le> length (ingressArrays h ! a)"
      using assms(1) by (simp_all add: wf_rule_def)
    moreover have "object_at h2 (IngressArrayAt a) = object_at h (IngressArrayAt a)"
      using assms(2) Slice by (simp add: footprint_def)
    ultimately show ?thesis using Slice by (auto split: if_splits)
  qed
  have eg: "wf_slice (egressArrays h2) (Egress ?R)
      \<and> slice_value (egressArrays h2) (Egress ?R) = slice_value (egressArrays h) (Egress ?R)"
  proof (cases "Egress ?R")
    case NilSlice
    then show ?thesis by simp
  next
    case (Slice a n c)
    then have "a < length (egressArrays h)" "n \<le> c" "c \<le> length (egressArrays h ! a)"
      using assms(1) by (simp_all add: wf_rule_def)
    moreover have "object_at h2 (EgressArrayAt a) = object_at h (EgressArrayAt a)"
      using assms(2) Slice by (simp add: footprint_def)
    ultimately show ?thesis using Slice by (auto split: if_splits)
  qed
  have lab: "wf_slice (labelArrays h2) (Rule.Labels ?R)
      \<and> slice_value (labelArrays h2) (Rule.Labels ?R) =
        slice_value (labelArrays h) (Rule.Labels ?R)"
  proof (cases "Rule.Labels ?R")
    case NilSlice
    then show ?thesis by simp
  next
    case (Slice a n c)
    then have "a < length (labelArrays h)" "n \<le> c" "c \<le> length (labelArrays h ! a)"
      using assms(1) by (simp_all add: wf_rule_def)
    moreover have "object_at h2 (LabelArrayAt a) = object_at h (LabelArrayAt a)"
      using assms(2) Slice by (simp add: footprint_def)
    ultimately show ?thesis using Slice by (auto split: if_splits)
  qed
  show "rule_value h2 r = rule_value h r"
    using R sel ing eg lab by (simp add: rule_value_def)
  show "footprint h2 r = footprint h r" using R by (simp add: footprint_def)
  show "wf_rule h2 r" using R sel ing eg lab by (simp add: wf_rule_def)
qed

lemma footprint_allocated:
  assumes "wf_rule h r" and "l \<in> set (footprint h r)"
  shows "object_at h l \<noteq> None"
proof -
  let ?R = "rules h ! r"
  have "l = RuleAt r
      \<or> (\<exists>a. EndpointSelector ?R = Some a \<and> l = SelectorAt a)
      \<or> (\<exists>a n c. Ingress ?R = Slice a n c \<and> l = IngressArrayAt a)
      \<or> (\<exists>a n c. Egress ?R = Slice a n c \<and> l = EgressArrayAt a)
      \<or> (\<exists>a n c. Rule.Labels ?R = Slice a n c \<and> l = LabelArrayAt a)"
    using assms(2) unfolding footprint_def
    by (cases "EndpointSelector ?R"; cases "Ingress ?R"; cases "Egress ?R";
        cases "Rule.Labels ?R") auto
  then show ?thesis using assms(1) by (auto simp: wf_rule_def wf_selector_def)
qed

lemma footprint_fresh:
  assumes "derivative_post derive h r out h'" and "l \<in> set (footprint h' (length (rules h)))"
  shows "object_at h l = None"
proof -
  let ?R = "rules h' ! length (rules h)"
  have "l = RuleAt (length (rules h))
      \<or> (\<exists>a. EndpointSelector ?R = Some a \<and> l = SelectorAt a)
      \<or> (\<exists>a n c. Ingress ?R = Slice a n c \<and> l = IngressArrayAt a)
      \<or> (\<exists>a n c. Egress ?R = Slice a n c \<and> l = EgressArrayAt a)
      \<or> (\<exists>a n c. Rule.Labels ?R = Slice a n c \<and> l = LabelArrayAt a)"
    using assms(2) unfolding footprint_def
    by (cases "EndpointSelector ?R"; cases "Ingress ?R"; cases "Egress ?R";
        cases "Rule.Labels ?R") auto
  then show ?thesis using assms(1) by (auto simp: derivative_post_def Let_def)
qed

lemma derivative_post_preserves:
  assumes "derivative_post derive h r out h'" and "object_at h l = Some obj"
  shows "object_at h' l = Some obj"
proof -
  have p: "prefix (rules h) (rules h')" "prefix (selectors h) (selectors h')"
    "prefix (ingressArrays h) (ingressArrays h')" "prefix (egressArrays h) (egressArrays h')"
    "prefix (labelArrays h) (labelArrays h')"
    using assms(1) by (simp_all add: derivative_post_def Let_def)
  have nth: "prefix xs ys \<Longrightarrow> a < length xs \<Longrightarrow> a < length ys \<and> ys ! a = xs ! a"
    for xs ys :: "'z list" and a
    by (auto simp: prefix_def nth_append)
  show ?thesis
    using assms(2) p by (cases l) (auto split: if_splits dest: nth)
qed

lemma poke_ingress_outside:
  "l \<noteq> IngressArrayAt a \<Longrightarrow>
     object_at (h\<lparr>ingressArrays := (ingressArrays h)[a := xs]\<rparr>) l = object_at h l"
  by (cases l) auto

subsection \<open>The claims on rules\<close>

text \<open>
  C1. For every rule \<open>r\<close>, \<open>r.CreateDerivative()\<close> does not mutate \<open>r\<close>: no object that
  existed before the call is changed, so the selector, the ingress list, the labels and
  the description of \<open>r\<close> are what they were. The rule returned holds copies of these
  four and shares no object with \<open>r\<close>: the two own disjoint sets of objects, and a change
  of the memory confined to the objects of one leaves the other as it was.
\<close>

theorem CreateDerivative_does_not_alias:
  assumes wf: "wf_rule h r" and run: "CreateDerivative derive newcap zero h r = (out, h')"
  shows "(\<forall>l obj. object_at h l = Some obj \<longrightarrow> object_at h' l = Some obj)
       \<and> selector (rule_value h' r) = selector (rule_value h r)
       \<and> ingress (rule_value h' r) = ingress (rule_value h r)
       \<and> labels (rule_value h' r) = labels (rule_value h r)
       \<and> description (rule_value h' r) = description (rule_value h r)
       \<and> (\<forall>n err. out = Return n err \<longrightarrow>
             selector (rule_value h' n) = selector (rule_value h r)
           \<and> ingress (rule_value h' n) = ingress (rule_value h r)
           \<and> labels (rule_value h' n) = labels (rule_value h r)
           \<and> description (rule_value h' n) = description (rule_value h r)
           \<and> set (footprint h' n) \<inter> set (footprint h' r) = {}
           \<and> (\<forall>h''. (\<forall>l. l \<notin> set (footprint h' n) \<longrightarrow> object_at h'' l = object_at h' l)
                  \<longrightarrow> rule_value h'' r = rule_value h' r)
           \<and> (\<forall>h''. (\<forall>l. l \<notin> set (footprint h' r) \<longrightarrow> object_at h'' l = object_at h' l)
                  \<longrightarrow> rule_value h'' n = rule_value h' n))"
proof -
  let ?n = "length (rules h)"
  note post = CreateDerivative_post [OF wf run]
  have keep: "object_at h l = Some obj \<Longrightarrow> object_at h' l = Some obj" for l obj
    using derivative_post_preserves [OF post] .
  have same_r: "\<forall>l \<in> set (footprint h r). object_at h' l = object_at h l"
    using footprint_allocated [OF wf] keep by fastforce
  note r' = rule_value_cong [OF wf same_r]
  have wfn: "wf_rule h' ?n" using post by (simp add: derivative_post_def Let_def)
  have disj: "set (footprint h' ?n) \<inter> set (footprint h' r) = {}"
    using footprint_fresh [OF post] footprint_allocated [OF wf] r'(2) by fastforce
  have obs_r: "rule_value h'' r = rule_value h' r"
    if "\<forall>l. l \<notin> set (footprint h' ?n) \<longrightarrow> object_at h'' l = object_at h' l" for h''
  proof -
    have "\<forall>l \<in> set (footprint h' r). object_at h'' l = object_at h' l"
      using that disj by blast
    from rule_value_cong(1) [OF r'(3) this] show ?thesis .
  qed
  have obs_n: "rule_value h'' ?n = rule_value h' ?n"
    if "\<forall>l. l \<notin> set (footprint h' r) \<longrightarrow> object_at h'' l = object_at h' l" for h''
  proof -
    have "\<forall>l \<in> set (footprint h' ?n). object_at h'' l = object_at h' l"
      using that disj by blast
    from rule_value_cong(1) [OF wfn this] show ?thesis .
  qed
  have ret: "n = ?n" if "out = Return n err" for n err
    using that post
    by (auto simp: derivative_post_def Let_def loop_result_def split: sum.splits)
  have copies: "selector (rule_value h' ?n) = selector (rule_value h r)"
    "ingress (rule_value h' ?n) = ingress (rule_value h r)"
    "labels (rule_value h' ?n) = labels (rule_value h r)"
    "description (rule_value h' ?n) = description (rule_value h r)"
    using post by (simp_all add: derivative_post_def Let_def)
  show ?thesis
    using keep r'(1) copies disj obs_r obs_n ret by (simp (no_asm_simp)) blast
qed

theorem CreateDerivative_does_not_alias_witness:
  "wf_rule example_heap 0
   \<and> fst example_result = Return 1 (Some (New_error ''cannot resolve the group''))
   \<and> ingress (rule_value (snd example_result) 0) = Some [''fromEndpoints app=bar'']
   \<and> ingress (rule_value (snd example_result) 1) = Some [''fromEndpoints app=bar'']
   \<and> set (footprint (snd example_result) 1) \<inter> set (footprint (snd example_result) 0) = {}
   \<and> ingress (rule_value
        ((snd example_result)\<lparr>ingressArrays :=
            (ingressArrays (snd example_result))[1 := [''fromEndpoints app=baz'']]\<rparr>) 1)
       = Some [''fromEndpoints app=baz'']
   \<and> rule_value
        ((snd example_result)\<lparr>ingressArrays :=
            (ingressArrays (snd example_result))[1 := [''fromEndpoints app=baz'']]\<rparr>) 0
       = rule_value (snd example_result) 0
   \<and> ingress (rule_value
        ((snd example_result)\<lparr>ingressArrays :=
            (ingressArrays (snd example_result))[0 := [''fromEndpoints app=baz'']]\<rparr>) 0)
       = Some [''fromEndpoints app=baz'']
   \<and> rule_value
        ((snd example_result)\<lparr>ingressArrays :=
            (ingressArrays (snd example_result))[0 := [''fromEndpoints app=baz'']]\<rparr>) 1
       = rule_value (snd example_result) 1"
proof -
  let ?h' = "snd example_result"
  let ?new = "?h'\<lparr>ingressArrays := (ingressArrays ?h')[1 := [''fromEndpoints app=baz'']]\<rparr>"
  let ?old = "?h'\<lparr>ingressArrays := (ingressArrays ?h')[0 := [''fromEndpoints app=baz'']]\<rparr>"
  have wf: "wf_rule example_heap 0" by code_simp
  have out: "fst example_result = Return 1 (Some (New_error ''cannot resolve the group''))"
    by code_simp
  have ing: "ingress (rule_value example_heap 0) = Some [''fromEndpoints app=bar'']"
    by code_simp
  have run: "CreateDerivative example_derive (\<lambda>n. 2 * n) [] example_heap 0 =
      (fst example_result, ?h')"
    by (simp add: example_result_def)
  have in_new: "IngressArrayAt 1 \<in> set (footprint ?h' 1)" by code_simp
  have in_old: "IngressArrayAt 0 \<in> set (footprint ?h' 0)" by code_simp
  have seen_new: "ingress (rule_value ?new 1) = Some [''fromEndpoints app=baz'']" by code_simp
  have seen_old: "ingress (rule_value ?old 0) = Some [''fromEndpoints app=baz'']" by code_simp
  have conf_new: "\<forall>l. l \<notin> set (footprint ?h' 1) \<longrightarrow> object_at ?new l = object_at ?h' l"
    using in_new poke_ingress_outside by metis
  have conf_old: "\<forall>l. l \<notin> set (footprint ?h' 0) \<longrightarrow> object_at ?old l = object_at ?h' l"
    using in_old poke_ingress_outside by metis
  note t = CreateDerivative_does_not_alias [OF wf run]
  have a: "ingress (rule_value ?h' 0) = ingress (rule_value example_heap 0)"
    using t by blast
  have b: "ingress (rule_value ?h' 1) = ingress (rule_value example_heap 0)
         \<and> set (footprint ?h' 1) \<inter> set (footprint ?h' 0) = {}"
    using t out by blast
  have c: "rule_value ?new 0 = rule_value ?h' 0"
    using t out conf_new by blast
  have d: "rule_value ?old 1 = rule_value ?h' 1"
    using t out conf_old by blast
  show ?thesis
    using wf out ing a b c d seen_new seen_old by simp
qed

text \<open>
  C2. \<open>CreateDerivative\<close> derives the egress entries in their order. When the entries
  \<open>pre\<close> are derived and the next entry \<open>x\<close> fails with \<open>err\<close>, it returns at once, whatever
  follows \<open>x\<close>: the result is \<open>err\<close> and a rule whose egress list is the derived \<open>pre\<close>; when
  the failing entry is the first one, that list has length 0.
\<close>

theorem CreateDerivative_prefix_and_first_error:
  assumes wf: "wf_rule h r" and run: "CreateDerivative derive newcap zero h r = (out, h')"
    and es: "egress (rule_value h r) = Some (pre @ x # post)"
    and ok: "\<forall>y \<in> set pre. \<exists>d. derive y = (Some d, None)"
    and bad: "derive x = (p, Some err)"
  shows "\<exists>n. out = Return n (Some err)
           \<and> egress (rule_value h' n) = Some (map (\<lambda>y. the (fst (derive y))) pre)
           \<and> (pre = [] \<longrightarrow> egress (rule_value h' n) = Some []
                          \<and> length (the (egress (rule_value h' n))) = 0)"
proof -
  have dp: "derive_prefix derive (pre @ x # post) =
      (map (\<lambda>y. the (fst (derive y))) pre, Inr (Some err))"
    using ok
  proof (induction pre)
    case Nil
    show ?case using derive_prefix_Cons_err [of derive x p err post] bad by simp
  next
    case (Cons y pre)
    then obtain d where d: "derive y = (Some d, None)" by auto
    show ?case using derive_prefix_Cons_ok [of derive y d "pre @ x # post"] Cons d by simp
  qed
  have "slice_elems (egressArrays h) (Egress (rules h ! r)) = pre @ x # post"
    using es by (cases "Egress (rules h ! r)") (simp_all add: rule_value_def)
  then show ?thesis
    using CreateDerivative_post [OF wf run] dp
    by (simp add: derivative_post_def Let_def loop_result_def)
qed

theorem CreateDerivative_prefix_and_first_error_witness:
  "wf_rule example_heap 0
   \<and> egress (rule_value example_heap 0) = Some ([''toGroups aws''] @ ''toGroups gone'' # [])
   \<and> example_derive ''toGroups aws'' = (Some ''toCIDRSet 10.0.0.0/8'', None)
   \<and> example_derive ''toGroups gone'' = (Some [], Some (New_error ''cannot resolve the group''))
   \<and> (\<exists>n. fst example_result = Return n (Some (New_error ''cannot resolve the group''))
          \<and> egress (rule_value (snd example_result) n) = Some [''toCIDRSet 10.0.0.0/8''])
   \<and> wf_rule single_heap 0
   \<and> egress (rule_value single_heap 0) = Some ([] @ ''toGroups gone'' # [])
   \<and> (\<exists>n. fst (CreateDerivative example_derive (\<lambda>n. 2 * n) [] single_heap 0) =
            Return n (Some (New_error ''cannot resolve the group''))
          \<and> length (the (egress (rule_value
               (snd (CreateDerivative example_derive (\<lambda>n. 2 * n) [] single_heap 0)) n))) = 0)"
proof -
  have wf: "wf_rule example_heap 0" by code_simp
  have es: "egress (rule_value example_heap 0) = Some ([''toGroups aws''] @ ''toGroups gone'' # [])"
    by code_simp
  have ok1: "example_derive ''toGroups aws'' = (Some ''toCIDRSet 10.0.0.0/8'', None)"
    by (simp add: example_derive_def)
  have ok: "\<forall>y \<in> set [''toGroups aws'']. \<exists>d. example_derive y = (Some d, None)"
    using ok1 by simp
  have bad: "example_derive ''toGroups gone'' =
      (Some [], Some (New_error ''cannot resolve the group''))"
    by (simp add: example_derive_def)
  have run: "CreateDerivative example_derive (\<lambda>n. 2 * n) [] example_heap 0 =
      (fst example_result, snd example_result)"
    by (simp add: example_result_def)
  have wf1: "wf_rule single_heap 0" by code_simp
  have es1: "egress (rule_value single_heap 0) = Some ([] @ ''toGroups gone'' # [])"
    by code_simp
  have ok0: "\<forall>y \<in> set ([] :: string list). \<exists>d. example_derive y = (Some d, None)"
    by simp
  have run1: "CreateDerivative example_derive (\<lambda>n. 2 * n) [] single_heap 0 =
      (fst (CreateDerivative example_derive (\<lambda>n. 2 * n) [] single_heap 0),
       snd (CreateDerivative example_derive (\<lambda>n. 2 * n) [] single_heap 0))" by simp
  have first: "\<exists>n. fst example_result = Return n (Some (New_error ''cannot resolve the group''))
          \<and> egress (rule_value (snd example_result) n) = Some [''toCIDRSet 10.0.0.0/8'']"
    using CreateDerivative_prefix_and_first_error [OF wf run es ok bad] ok1 by auto
  have single: "\<exists>n. fst (CreateDerivative example_derive (\<lambda>n. 2 * n) [] single_heap 0) =
            Return n (Some (New_error ''cannot resolve the group''))
          \<and> length (the (egress (rule_value
               (snd (CreateDerivative example_derive (\<lambda>n. 2 * n) [] single_heap 0)) n))) = 0"
    using CreateDerivative_prefix_and_first_error [OF wf1 run1 es1 ok0 bad] by auto
  show ?thesis
    using wf es ok1 bad first wf1 es1 single by blast
qed

lemma requires_loop_eq:
  assumes "a < length arrs" and "\<forall>i \<in> set is. i < length (arrs ! a)"
  shows "requires_loop requires arrs a is =
           Some ((\<exists>e \<in> set (map (\<lambda>i. arrs ! a ! i) is). requires e),
                 takeWhile (\<lambda>e. \<not> requires e) (map (\<lambda>i. arrs ! a ! i) is)
                 @ take 1 (dropWhile (\<lambda>e. \<not> requires e) (map (\<lambda>i. arrs ! a ! i) is)))"
  using assms by (induction "is") auto

text \<open>
  C9. \<open>r.RequiresDerivative()\<close> is true if and only if some entry of the egress list of
  \<open>r\<close> requires a derivative. It asks the entries in order up to the first that does and
  none after it, it is false for an empty egress list, and it is the same whatever the
  ingress list of \<open>r\<close> is.
\<close>

theorem RequiresDerivative_iff_some_egress_entry:
  assumes wf: "wf_rule h r"
    and es: "es = (case egress (rule_value h r) of None \<Rightarrow> [] | Some xs \<Rightarrow> xs)"
  shows "RequiresDerivative requires h r =
           Some ((\<exists>e \<in> set es. requires e),
                 takeWhile (\<lambda>e. \<not> requires e) es
                 @ take 1 (dropWhile (\<lambda>e. \<not> requires e) es))
       \<and> (es = [] \<longrightarrow> RequiresDerivative requires h r = Some (False, []))
       \<and> (\<forall>arrs s. RequiresDerivative requires
              (h\<lparr>ingressArrays := arrs,
                 rules := (rules h)[r := (rules h ! r)\<lparr>Ingress := s\<rparr>]\<rparr>) r =
            RequiresDerivative requires h r)"
proof -
  have r: "r < length (rules h)" and we: "wf_slice (egressArrays h) (Egress (rules h ! r))"
    using wf by (simp_all add: wf_rule_def)
  have main: "RequiresDerivative requires h r =
           Some ((\<exists>e \<in> set es. requires e),
                 takeWhile (\<lambda>e. \<not> requires e) es
                 @ take 1 (dropWhile (\<lambda>e. \<not> requires e) es))"
  proof (cases "Egress (rules h ! r)")
    case NilSlice
    then show ?thesis using r es by (simp add: RequiresDerivative_def rule_value_def)
  next
    case (Slice a n c)
    then have a: "a < length (egressArrays h)" and n: "n \<le> length (egressArrays h ! a)"
      using we by simp_all
    have "es = map (\<lambda>i. egressArrays h ! a ! i) [0..<n]"
      using es Slice map_nth_upt_take [OF n] by (simp add: rule_value_def)
    moreover have "\<forall>i \<in> set [0..<n]. i < length (egressArrays h ! a)" using n by simp
    ultimately show ?thesis
      using requires_loop_eq [OF a, of "[0..<n]" requires] r Slice
      by (simp add: RequiresDerivative_def)
  qed
  have indep: "RequiresDerivative requires
              (h\<lparr>ingressArrays := arrs,
                 rules := (rules h)[r := (rules h ! r)\<lparr>Ingress := s\<rparr>]\<rparr>) r =
            RequiresDerivative requires h r" for arrs s
    using r by (simp add: RequiresDerivative_def split: slice.splits)
  show ?thesis using main indep by simp
qed

theorem RequiresDerivative_iff_some_egress_entry_witness:
  "wf_rule example_heap 0
   \<and> RequiresDerivative example_requires example_heap 0 = Some (True, [''toGroups aws''])"
proof -
  have wf: "wf_rule example_heap 0" by code_simp
  have es: "[''toGroups aws'', ''toGroups gone''] =
      (case egress (rule_value example_heap 0) of None \<Rightarrow> [] | Some xs \<Rightarrow> xs)"
    by code_simp
  show ?thesis
    using RequiresDerivative_iff_some_egress_entry [OF wf es, of example_requires] wf
    by (simp add: example_requires_def)
qed

section \<open>Properties of the reconciler\<close>

subsection \<open>The version check\<close>

lemma needsUpdate_iff:
  "needsUpdate V cmp d \<longleftrightarrow>
     Validation (Spec d) = None
     \<or> Labels d CustomResourceDefinitionSchemaVersionKey = None
     \<or> (\<exists>v. Labels d CustomResourceDefinitionSchemaVersionKey = Some v
            \<and> (NewVersion V v = None
                \<or> (\<exists>cv. NewVersion V v = Some cv \<and> LessThan V cv cmp)))"
  by (auto simp: needsUpdate_def split: option.splits)

lemma semver_parse_simps:
  "semver_NewVersion ''1.15'' = Some [1, 15]"
  "semver_NewVersion ''1.14'' = Some [1, 14]"
  "semver_NewVersion ''abc'' = None"
  "semver_NewVersion ''1.16'' = Some [1, 16]"
  "semver_NewVersion ''2.0'' = Some [2, 0]"
  "semver_NewVersion ''1.15.1'' = Some [1, 15, 1]"
  by (simp_all add: semver_NewVersion_def parse_number_def digit_of_def)

lemma needsUpdate_stored:
  "needsUpdate semver cmp (stored_with_label v) =
     (case semver_NewVersion v of None \<Rightarrow> True | Some cv \<Rightarrow> semver_LessThan cv cmp)"
  by (simp add: needsUpdate_def stored_with_label_def semver_def split: option.splits)

text \<open>
  C3. \<open>needsUpdate\<close> is true if and only if the stored descriptor has no validation
  schema, or no schema-version label, or a label that does not parse, or a label that
  parses to a version strictly less than the expected one. With semantic versions and
  the expected version 1.15 (what \<open>init\<close> parses), a descriptor that has a schema needs
  an update exactly when its label does not parse or is less than 1.15: the labels 1.14
  and abc need one, the labels 1.15, 1.16, 2.0 and 1.15.1 need none.
\<close>

theorem needsUpdate_version_check:
  "(needsUpdate V cmp d \<longleftrightarrow>
      Validation (Spec d) = None
      \<or> Labels d CustomResourceDefinitionSchemaVersionKey = None
      \<or> (\<exists>v. Labels d CustomResourceDefinitionSchemaVersionKey = Some v
             \<and> (NewVersion V v = None
                 \<or> (\<exists>cv. NewVersion V v = Some cv \<and> LessThan V cv cmp))))
   \<and> init_comparableCRDSchemaVersion semver = Some [1, 15]
   \<and> needsUpdate semver [1, 15] (stored_with_label v) =
       (case semver_NewVersion v of None \<Rightarrow> True | Some cv \<Rightarrow> semver_LessThan cv [1, 15])
   \<and> needsUpdate semver [1, 15] (stored_with_label ''1.14'')
   \<and> needsUpdate semver [1, 15] (stored_with_label ''abc'')
   \<and> \<not> needsUpdate semver [1, 15] (stored_with_label ''1.15'')
   \<and> \<not> needsUpdate semver [1, 15] (stored_with_label ''1.16'')
   \<and> \<not> needsUpdate semver [1, 15] (stored_with_label ''2.0'')
   \<and> \<not> needsUpdate semver [1, 15] (stored_with_label ''1.15.1'')"
proof -
  have init: "init_comparableCRDSchemaVersion semver = Some [1, 15]"
    by (simp add: init_comparableCRDSchemaVersion_def CustomResourceDefinitionSchemaVersion_def
        semver_def semver_parse_simps)
  have conc: "needsUpdate semver [1, 15] (stored_with_label ''1.14'')"
    "needsUpdate semver [1, 15] (stored_with_label ''abc'')"
    "\<not> needsUpdate semver [1, 15] (stored_with_label ''1.15'')"
    "\<not> needsUpdate semver [1, 15] (stored_with_label ''1.16'')"
    "\<not> needsUpdate semver [1, 15] (stored_with_label ''2.0'')"
    "\<not> needsUpdate semver [1, 15] (stored_with_label ''1.15.1'')"
    by (simp_all add: needsUpdate_stored semver_parse_simps)
  show ?thesis
    using needsUpdate_iff [of V cmp d] init conc needsUpdate_stored [of "[1, 15]" v]
    by blast
qed

subsection \<open>Calls on the store\<close>

lemma callGet_eq:
  "Get c n (store w) = (r, s') \<Longrightarrow> callGet c n w = (r, \<lparr>store = s', trace = trace w @ [EvGet n]\<rparr>)"
  by (simp add: callGet_def)

lemma callCreate_eq:
  "Create c d (store w) = (r, s') \<Longrightarrow>
     callCreate c d w = (r, \<lparr>store = s', trace = trace w @ [EvCreate d]\<rparr>)"
  by (simp add: callCreate_def)

lemma callDelete_eq:
  "Delete c n (store w) = (r, s') \<Longrightarrow>
     callDelete c n w = (r, \<lparr>store = s', trace = trace w @ [EvDelete n]\<rparr>)"
  by (simp add: callDelete_def)

lemma agent_simps [simp]:
  "clientset (agent c n) = c" "version (agent c n) = semver"
  "comparableCRDSchemaVersion (agent c n) = [1, 15]" "pollTicks (agent c n) = n"
  "GroupName (agent c n) = ''cilium.io''"
  "IdentityAllocationMode (agent c n) = ''kvstore''"
  "IdentityAllocationModeCRD (agent c n) = ''crd''"
  by (simp_all add: agent_def)

lemma scripted_simps [simp]:
  "Get scripted n (x # xs) = (x, xs)"
  "Create scripted d (x # xs) = (x, xs)"
  "Update scripted d (x # xs) = (x, xs)"
  "Delete scripted n (Inl e # xs) = (Some e, xs)"
  "Delete scripted n (Inr d # xs) = (None, xs)"
  by (simp_all add: scripted_def)

lemma needsUpdate_Conditions [simp]:
  "needsUpdate V cmp (d\<lparr>Conditions := cs\<rparr>) = needsUpdate V cmp d"
  by (simp add: needsUpdate_def)

lemma needsUpdate_with_conditions [simp]:
  "needsUpdate V cmp (with_conditions cs d) = needsUpdate V cmp d"
  by (simp add: with_conditions_def)

lemma desired_current: "\<not> needsUpdate semver [1, 15] desired"
  by (simp add: desired_def needsUpdate_stored CustomResourceDefinitionSchemaVersion_def
      semver_parse_simps)

lemma current_facts:
  "\<not> needsUpdate semver [1, 15] current" "is_established current" "\<not> names_rejected current"
  using desired_current
  by (simp_all add: current_def is_established_def names_rejected_def with_conditions_def
      established_true_def)

lemma checkConditions_iff:
  "checkConditions err cs =
     ((\<exists>c \<in> set (takeWhile (\<lambda>c. \<not> (Type c = NamesAccepted \<and> Status c = ConditionFalse)) cs).
         Type c = Established \<and> Status c = ConditionTrue), err)"
  by (induction cs) (auto split: ConditionType.splits)

subsection \<open>A create that reports AlreadyExists\<close>

lemma fetchOrCreate_AlreadyExists:
  assumes "Get (clientset E) (Name crd) (store w) = (Inl e1, s1)" and "IsNotFound e1"
    and "Create (clientset E) crd s1 = (Inl e2, s2)" and "IsAlreadyExists e2"
  shows "fetchOrCreate E crd w =
           (Inl None, \<lparr>store = s2, trace = trace w @ [EvGet (Name crd), EvCreate crd]\<rparr>)"
  using assms by (simp add: fetchOrCreate_def callGet_eq callCreate_eq)

text \<open>
  C5. When the descriptor is not found on fetch and the create that follows reports
  AlreadyExists, the reconciliation returns the nil error. The race of two reconcilers
  for an absent descriptor is such a run for the one that loses: the rival's create
  succeeds, its own reports AlreadyExists, and it returns nil.
\<close>

theorem createUpdateCRD_AlreadyExists_nil:
  assumes "Get (clientset E) (Name crd) (store w) = (Inl e1, s1)" and "IsNotFound e1"
    and "Create (clientset E) crd s1 = (Inl e2, s2)" and "IsAlreadyExists e2"
  shows "fst (createUpdateCRD E CRDName crd w) = None"
  using fetchOrCreate_AlreadyExists [OF assms] by (simp add: createUpdateCRD_def)

theorem createUpdateCRD_AlreadyExists_nil_witness:
  "Get (clientset (agent (overtaken memory) 120)) (Name desired) [] = (Inl not_found, [])
   \<and> IsNotFound not_found
   \<and> Create memory desired [] = (Inr current, [(Name desired, current)])
   \<and> Create (clientset (agent (overtaken memory) 120)) desired [] =
        (Inl already_exists, [(Name desired, current)])
   \<and> IsAlreadyExists already_exists
   \<and> fst (createUpdateCRD (agent (overtaken memory) 120) ''CiliumNetworkPolicy/v2'' desired
            \<lparr>store = [], trace = []\<rparr>) = None"
proof -
  let ?E = "agent (overtaken memory) 120"
  have nf: "IsNotFound not_found" by (simp add: IsNotFound_def not_found_def)
  have ae: "IsAlreadyExists already_exists" by (simp add: IsAlreadyExists_def already_exists_def)
  have g: "Get (clientset ?E) (Name desired) (store \<lparr>store = [], trace = []\<rparr>) =
             (Inl not_found, [])"
    by (simp add: overtaken_def memory_def)
  have first: "Create memory desired [] = (Inr current, [(Name desired, current)])"
    by (simp add: memory_def current_def)
  have c: "Create (clientset ?E) desired [] = (Inl already_exists, [(Name desired, current)])"
    by (simp add: overtaken_def memory_def current_def with_conditions_def)
  show ?thesis
    using createUpdateCRD_AlreadyExists_nil [OF g nf c ae] nf ae g first c by simp
qed

text \<open>
  C6, as the claim states it, fails: after a create that reports AlreadyExists the
  reconciler returns without a poll of the status conditions. Here the trace ends with
  the create, and the descriptor the store had ready for a poll is never fetched.
\<close>

theorem createUpdateCRD_AlreadyExists_no_acceptance_wait:
  "createUpdateCRD (agent scripted 120) ''CiliumNetworkPolicy/v2'' desired
       \<lparr>store = [Inl not_found, Inl already_exists, Inr current], trace = []\<rparr> =
     (None, \<lparr>store = [Inr current], trace = [EvGet (Name desired), EvCreate desired]\<rparr>)"
  by (simp add: createUpdateCRD_def fetchOrCreate_def callGet_def callCreate_def
      IsNotFound_def IsAlreadyExists_def not_found_def already_exists_def)

text \<open>
  C6, amended. When create reports AlreadyExists, the reconciler treats it as success
  and returns nil at once: after the fetch and the create it makes no call on the store
  and waits for nothing, so neither the version check nor the acceptance wait runs.
\<close>

theorem createUpdateCRD_AlreadyExists_returns_at_once:
  assumes "Get (clientset E) (Name crd) (store w) = (Inl e1, s1)" and "IsNotFound e1"
    and "Create (clientset E) crd s1 = (Inl e2, s2)" and "IsAlreadyExists e2"
  shows "createUpdateCRD E CRDName crd w =
           (None, \<lparr>store = s2, trace = trace w @ [EvGet (Name crd), EvCreate crd]\<rparr>)"
  using fetchOrCreate_AlreadyExists [OF assms] by (simp add: createUpdateCRD_def)

theorem createUpdateCRD_AlreadyExists_returns_at_once_witness:
  "IsNotFound not_found \<and> IsAlreadyExists already_exists
   \<and> createUpdateCRD (agent scripted 120) ''CiliumNetworkPolicy/v2'' desired
       \<lparr>store = [Inl not_found, Inl already_exists, Inr current], trace = []\<rparr> =
     (None, \<lparr>store = [Inr current], trace = [EvGet (Name desired), EvCreate desired]\<rparr>)"
proof -
  have nf: "IsNotFound not_found" by (simp add: IsNotFound_def not_found_def)
  have ae: "IsAlreadyExists already_exists" by (simp add: IsAlreadyExists_def already_exists_def)
  have g: "Get (clientset (agent scripted 120)) (Name desired)
             (store \<lparr>store = [Inl not_found, Inl already_exists, Inr current], trace = []\<rparr>) =
           (Inl not_found, [Inl already_exists, Inr current])" by simp
  have c: "Create (clientset (agent scripted 120)) desired [Inl already_exists, Inr current] =
           (Inl already_exists, [Inr current])" by simp
  show ?thesis
    using createUpdateCRD_AlreadyExists_returns_at_once [OF g nf c ae] nf ae by simp
qed

subsection \<open>The acceptance wait\<close>

text \<open>
  C7. If the acceptance wait fails with \<open>err\<close>, the reconciler deletes the descriptor it
  was installing, as its last call, and returns an error: \<open>err\<close> when the deletion
  succeeds, and otherwise one error whose message holds both the message of the
  deletion failure and the message of \<open>err\<close>.
\<close>

theorem rollback_on_acceptance_failure:
  assumes "fetchOrCreate E crd w = (Inr clusterCRD, w1)"
    and "updateIfNeeded E crd clusterCRD w1 = (None, w2)"
    and "Poll (pollTicks E) (establishedCondition E crd) w2 = (Some err, w3)"
    and "Delete (clientset E) (Name crd) (store w3) = (deleteErr, s4)"
  shows "\<exists>e. createUpdateCRD E CRDName crd w =
               (Some e, \<lparr>store = s4, trace = trace w3 @ [EvDelete (Name crd)]\<rparr>)
             \<and> (case deleteErr of
                  None \<Rightarrow> e = err
                | Some de \<Rightarrow>
                    message e = ''unable to delete k8s '' @ CRDName @ '' CRD '' @ message de
                                  @ ''. Deleting CRD due: '' @ message err
                    \<and> sublist (message err) (message e) \<and> sublist (message de) (message e))"
proof (cases deleteErr)
  case None
  then show ?thesis using assms
    by (simp add: createUpdateCRD_def rollback_def callDelete_eq)
next
  case (Some de)
  have "sublist (message err) (''unable to delete k8s '' @ CRDName @ '' CRD '' @ message de
                                  @ ''. Deleting CRD due: '' @ message err)"
    by (metis append.assoc append_Nil2 sublist_appendI)
  moreover have "sublist (message de) (''unable to delete k8s '' @ CRDName @ '' CRD '' @ message de
                                  @ ''. Deleting CRD due: '' @ message err)"
    by (metis append.assoc sublist_appendI)
  ultimately show ?thesis using assms Some
    by (simp add: createUpdateCRD_def rollback_def callDelete_eq Errorf_unable_to_delete_def
        New_error_def)
qed

theorem rollback_on_acceptance_failure_witness:
  "fetchOrCreate (agent scripted 0) desired
       \<lparr>store = [Inr pending, Inl refused, Inl forbidden], trace = []\<rparr> =
     (Inr pending, \<lparr>store = [Inl refused, Inl forbidden], trace = [EvGet (Name desired)]\<rparr>)
   \<and> updateIfNeeded (agent scripted 0) desired pending
       \<lparr>store = [Inl refused, Inl forbidden], trace = [EvGet (Name desired)]\<rparr> =
     (None, \<lparr>store = [Inl refused, Inl forbidden], trace = [EvGet (Name desired)]\<rparr>)
   \<and> Poll (pollTicks (agent scripted 0)) (establishedCondition (agent scripted 0) desired)
       \<lparr>store = [Inl refused, Inl forbidden], trace = [EvGet (Name desired)]\<rparr> =
     (Some refused,
      \<lparr>store = [Inl forbidden], trace = [EvGet (Name desired), EvWait, EvGet (Name desired)]\<rparr>)
   \<and> Delete (clientset (agent scripted 0)) (Name desired) [Inl forbidden] = (Some forbidden, [])
   \<and> (\<exists>e. createUpdateCRD (agent scripted 0) ''CiliumNetworkPolicy/v2'' desired
              \<lparr>store = [Inr pending, Inl refused, Inl forbidden], trace = []\<rparr> =
            (Some e, \<lparr>store = [],
                       trace = [EvGet (Name desired), EvWait, EvGet (Name desired),
                                EvDelete (Name desired)]\<rparr>)
          \<and> message e = ''unable to delete k8s CiliumNetworkPolicy/v2 CRD forbidden. Deleting CRD due: connection refused'')"
proof -
  let ?E = "agent scripted 0"
  let ?w = "\<lparr>store = [Inr pending, Inl refused, Inl forbidden], trace = []\<rparr>"
  let ?w1 = "\<lparr>store = [Inl refused, Inl forbidden], trace = [EvGet (Name desired)]\<rparr>"
  let ?w3 = "\<lparr>store = [Inl forbidden],
              trace = [EvGet (Name desired), EvWait, EvGet (Name desired)]\<rparr>"
  have f: "fetchOrCreate ?E desired ?w = (Inr pending, ?w1)"
    by (simp add: fetchOrCreate_def callGet_def)
  have u: "updateIfNeeded ?E desired pending ?w1 = (None, ?w1)"
    using desired_current by (simp add: updateIfNeeded_def pending_def)
  have p: "Poll (pollTicks ?E) (establishedCondition ?E desired) ?w1 = (Some refused, ?w3)"
    by (simp add: establishedCondition_def callGet_def wait_tick_def)
  have d: "Delete (clientset ?E) (Name desired) [Inl forbidden] = (Some forbidden, [])"
    by simp
  have d': "Delete (clientset ?E) (Name desired) (store ?w3) = (Some forbidden, [])"
    by simp
  have r: "\<exists>e. createUpdateCRD ?E ''CiliumNetworkPolicy/v2'' desired ?w =
            (Some e, \<lparr>store = [],
                       trace = [EvGet (Name desired), EvWait, EvGet (Name desired),
                                EvDelete (Name desired)]\<rparr>)
          \<and> message e = ''unable to delete k8s CiliumNetworkPolicy/v2 CRD forbidden. Deleting CRD due: connection refused''"
    using rollback_on_acceptance_failure [OF f u p d', of "''CiliumNetworkPolicy/v2''"]
    by (auto simp: refused_def forbidden_def New_error_def)
  show ?thesis using f u p d r by blast
qed

lemma polls_Suc': "tr @ EvWait # EvGet n # polls n k = tr @ polls n (Suc k)"
  by (simp add: polls_def)

lemma Poll_never_accepted:
  assumes g: "\<And>s. Get (clientset E) (Name crd) s = (Inr d, s)"
    and c: "checkConditions None (Conditions d) = (False, None)"
  shows "Poll n (establishedCondition E crd) w =
           (Some ErrWaitTimeout, \<lparr>store = store w, trace = trace w @ polls (Name crd) (Suc n)\<rparr>)"
proof (induction n arbitrary: w)
  case 0
  show ?case using g c
    by (simp add: establishedCondition_def callGet_eq wait_tick_def polls_def)
next
  case (Suc n)
  have "establishedCondition E crd (wait_tick w) =
          ((False, None), \<lparr>store = store w, trace = trace w @ [EvWait, EvGet (Name crd)]\<rparr>)"
    using g c by (simp add: establishedCondition_def callGet_eq wait_tick_def)
  then show ?case
    using Suc.IH [of "\<lparr>store = store w, trace = trace w @ [EvWait, EvGet (Name crd)]\<rparr>"]
    by (simp add: polls_Suc')
qed

lemma steady_never_accepted:
  assumes nu: "\<not> needsUpdate semver [1, 15] d"
    and c: "checkConditions None (Conditions d) = (False, None)"
  shows "createUpdateCRD (agent (steady d) n) CRDName desired \<lparr>store = (), trace = []\<rparr> =
     (Some ErrWaitTimeout,
      \<lparr>store = (),
       trace = EvGet (Name desired) # polls (Name desired) (Suc n) @ [EvDelete (Name desired)]\<rparr>)"
proof -
  let ?E = "agent (steady d) n"
  have f: "fetchOrCreate ?E desired \<lparr>store = (), trace = []\<rparr> =
             (Inr d, \<lparr>store = (), trace = [EvGet (Name desired)]\<rparr>)"
    by (simp add: fetchOrCreate_def callGet_def steady_def)
  have u: "updateIfNeeded ?E desired d w = (None, w)" for w
    using nu by (simp add: updateIfNeeded_def)
  have p: "Poll n (establishedCondition ?E desired) \<lparr>store = (), trace = [EvGet (Name desired)]\<rparr> =
             (Some ErrWaitTimeout,
              \<lparr>store = (), trace = [EvGet (Name desired)] @ polls (Name desired) (Suc n)\<rparr>)"
    using Poll_never_accepted [of ?E desired d n, OF _ c]
    by (simp add: steady_def)
  show ?thesis
    using f u p
    by (simp add: createUpdateCRD_def rollback_def callDelete_def steady_def)
qed

text \<open>
  C8, as the claim states it, fails twice. Against a store that holds the current and
  established descriptor the reconciliation returns nil and leaves the store as it is,
  but it fetches the descriptor twice, not once. And when the descriptor reports a
  NamesAccepted that is false before its Established that is true, it needs no update
  and is established, yet the scan stops at the first of the two conditions: the
  acceptance poll runs to its ceiling, the descriptor is deleted, and the result is the
  timeout error.
\<close>

theorem converged_claim_fails:
  "\<not> needsUpdate semver [1, 15] current \<and> is_established current
   \<and> Get memory (Name desired) [(Name desired, current)] =
       (Inr current, [(Name desired, current)])
   \<and> createUpdateCRD (agent memory 120) ''CiliumNetworkPolicy/v2'' desired
       \<lparr>store = [(Name desired, current)], trace = []\<rparr> =
     (None, \<lparr>store = [(Name desired, current)],
             trace = [EvGet (Name desired), EvWait, EvGet (Name desired)]\<rparr>)
   \<and> length (fetches [EvGet (Name desired), EvWait, EvGet (Name desired)]) = 2
   \<and> \<not> needsUpdate semver [1, 15] conflict_then_established
   \<and> is_established conflict_then_established
   \<and> Get (steady conflict_then_established) (Name desired) () =
       (Inr conflict_then_established, ())
   \<and> createUpdateCRD (agent (steady conflict_then_established) 120)
       ''CiliumNetworkPolicy/v2'' desired \<lparr>store = (), trace = []\<rparr> =
     (Some ErrWaitTimeout,
      \<lparr>store = (),
       trace = EvGet (Name desired) # polls (Name desired) 121 @ [EvDelete (Name desired)]\<rparr>)
   \<and> filter is_mutation
        (EvGet (Name desired) # polls (Name desired) 121 @ [EvDelete (Name desired)]) =
      [EvDelete (Name desired)]"
proof -
  have c: "checkConditions None (Conditions current) = (True, None)"
    by (simp add: current_def with_conditions_def established_true_def)
  have g: "Get memory (Name desired) [(Name desired, current)] =
       (Inr current, [(Name desired, current)])"
    by (simp add: memory_def)
  have one: "createUpdateCRD (agent memory 120) ''CiliumNetworkPolicy/v2'' desired
       \<lparr>store = [(Name desired, current)], trace = []\<rparr> =
     (None, \<lparr>store = [(Name desired, current)],
             trace = [EvGet (Name desired), EvWait, EvGet (Name desired)]\<rparr>)"
    using current_facts(1) c g
    by (simp add: createUpdateCRD_def fetchOrCreate_def updateIfNeeded_def
        establishedCondition_def callGet_def wait_tick_def eval_nat_numeral)
  have nu: "\<not> needsUpdate semver [1, 15] conflict_then_established"
    using desired_current by (simp add: conflict_then_established_def)
  have est: "is_established conflict_then_established"
    by (simp add: conflict_then_established_def is_established_def with_conditions_def
        established_true_def)
  have c2: "checkConditions None (Conditions conflict_then_established) = (False, None)"
    by (simp add: conflict_then_established_def with_conditions_def names_conflict_def)
  have g2: "Get (steady conflict_then_established) (Name desired) () =
       (Inr conflict_then_established, ())"
    by (simp add: steady_def)
  have two: "createUpdateCRD (agent (steady conflict_then_established) 120)
       ''CiliumNetworkPolicy/v2'' desired \<lparr>store = (), trace = []\<rparr> =
     (Some ErrWaitTimeout,
      \<lparr>store = (),
       trace = EvGet (Name desired) # polls (Name desired) 121 @ [EvDelete (Name desired)]\<rparr>)"
    using steady_never_accepted [OF nu c2, of 120 "''CiliumNetworkPolicy/v2''"] by simp
  have nomut: "filter is_mutation (polls n k) = []" for n k
    by (induction k) (simp_all add: polls_def)
  have mut: "filter is_mutation
        (EvGet (Name desired) # polls (Name desired) 121 @ [EvDelete (Name desired)]) =
      [EvDelete (Name desired)]"
    by (simp add: nomut)
  show ?thesis
    using current_facts(1,2) g one nu est g2 two mut by simp
qed

text \<open>
  C8, amended. Against a store that holds the current descriptor (no update needed, and
  an Established that is true before any NamesAccepted that is false) the reconciliation
  fetches the descriptor, waits one interval of the acceptance poll, fetches it once
  more and returns nil; it issues no create, update or delete. A second reconciliation
  after a first one is such a run, and so is one on a descriptor whose NamesAccepted is
  false after its Established.
\<close>

theorem converged_fetches_twice:
  assumes "Get (clientset E) (Name crd) (store w) = (Inr d1, s1)"
    and "\<not> needsUpdate (version E) (comparableCRDSchemaVersion E) d1"
    and "Get (clientset E) (Name crd) s1 = (Inr d2, s2)"
    and "established_before_conflict d2"
  shows "createUpdateCRD E CRDName crd w =
           (None, \<lparr>store = s2, trace = trace w @ [EvGet (Name crd), EvWait, EvGet (Name crd)]\<rparr>)
         \<and> filter is_mutation (trace (snd (createUpdateCRD E CRDName crd w))) =
           filter is_mutation (trace w)"
proof -
  have f: "fetchOrCreate E crd w = (Inr d1, \<lparr>store = s1, trace = trace w @ [EvGet (Name crd)]\<rparr>)"
    using assms(1) by (simp add: fetchOrCreate_def callGet_eq)
  have u: "updateIfNeeded E crd d1 w' = (None, w')" for w'
    using assms(2) by (simp add: updateIfNeeded_def)
  have c: "checkConditions None (Conditions d2) = (True, None)"
    using assms(4) checkConditions_iff [of None "Conditions d2"]
    by (simp add: established_before_conflict_def)
  have e: "establishedCondition E crd
             (wait_tick \<lparr>store = s1, trace = trace w @ [EvGet (Name crd)]\<rparr>) =
           ((True, None),
            \<lparr>store = s2, trace = trace w @ [EvGet (Name crd), EvWait, EvGet (Name crd)]\<rparr>)"
    using assms(3) c by (simp add: establishedCondition_def callGet_eq wait_tick_def)
  have p: "Poll (pollTicks E) (establishedCondition E crd)
             \<lparr>store = s1, trace = trace w @ [EvGet (Name crd)]\<rparr> =
           (None, \<lparr>store = s2, trace = trace w @ [EvGet (Name crd), EvWait, EvGet (Name crd)]\<rparr>)"
    using e by (cases "pollTicks E") simp_all
  show ?thesis
    using f u p by (simp add: createUpdateCRD_def)
qed

theorem converged_fetches_twice_witness:
  "createUpdateCRD (agent memory 120) ''CiliumNetworkPolicy/v2'' desired
       \<lparr>store = [], trace = []\<rparr> =
     (None, \<lparr>store = [(Name desired, current)],
             trace = [EvGet (Name desired), EvCreate desired, EvWait, EvGet (Name desired)]\<rparr>)
   \<and> Get (clientset (agent memory 120)) (Name desired) [(Name desired, current)] =
       (Inr current, [(Name desired, current)])
   \<and> \<not> needsUpdate semver [1, 15] current
   \<and> established_before_conflict current
   \<and> createUpdateCRD (agent memory 120) ''CiliumNetworkPolicy/v2'' desired
       \<lparr>store = [(Name desired, current)],
         trace = [EvGet (Name desired), EvCreate desired, EvWait, EvGet (Name desired)]\<rparr> =
     (None, \<lparr>store = [(Name desired, current)],
             trace = [EvGet (Name desired), EvCreate desired, EvWait, EvGet (Name desired),
                      EvGet (Name desired), EvWait, EvGet (Name desired)]\<rparr>)
   \<and> Get (clientset (agent (steady established_then_conflict) 120)) (Name desired) () =
       (Inr established_then_conflict, ())
   \<and> \<not> needsUpdate semver [1, 15] established_then_conflict
   \<and> names_rejected established_then_conflict
   \<and> established_before_conflict established_then_conflict
   \<and> createUpdateCRD (agent (steady established_then_conflict) 120)
       ''CiliumNetworkPolicy/v2'' desired \<lparr>store = (), trace = []\<rparr> =
     (None, \<lparr>store = (), trace = [EvGet (Name desired), EvWait, EvGet (Name desired)]\<rparr>)"
proof -
  let ?E = "agent memory 120"
  let ?s = "[(Name desired, current)]"
  let ?w1 = "\<lparr>store = ?s,
               trace = [EvGet (Name desired), EvCreate desired, EvWait, EvGet (Name desired)]\<rparr>"
  have c: "checkConditions None (Conditions current) = (True, None)"
    by (simp add: current_def with_conditions_def established_true_def)
  have ebc: "established_before_conflict current"
    by (simp add: established_before_conflict_def current_def with_conditions_def
        established_true_def)
  have nf: "IsNotFound not_found" by (simp add: IsNotFound_def not_found_def)
  have g: "Get (clientset ?E) (Name desired) ?s = (Inr current, ?s)"
    by (simp add: memory_def)
  have g': "Get (clientset ?E) (Name desired) (store ?w1) = (Inr current, ?s)"
    using g by simp
  have nu: "\<not> needsUpdate (version ?E) (comparableCRDSchemaVersion ?E) current"
    using current_facts(1) by simp
  have first: "createUpdateCRD ?E ''CiliumNetworkPolicy/v2'' desired \<lparr>store = [], trace = []\<rparr> =
     (None, ?w1)"
    using current_facts(1) c nf
    by (simp add: createUpdateCRD_def fetchOrCreate_def updateIfNeeded_def
        establishedCondition_def callGet_def callCreate_def wait_tick_def eval_nat_numeral
        memory_def current_def [symmetric])
  have second: "createUpdateCRD ?E ''CiliumNetworkPolicy/v2'' desired ?w1 =
     (None, \<lparr>store = ?s,
             trace = [EvGet (Name desired), EvCreate desired, EvWait, EvGet (Name desired),
                      EvGet (Name desired), EvWait, EvGet (Name desired)]\<rparr>)"
    using converged_fetches_twice [OF g' nu g ebc, of "''CiliumNetworkPolicy/v2''"] by simp
  let ?F = "agent (steady established_then_conflict) 120"
  have h: "Get (clientset ?F) (Name desired) () = (Inr established_then_conflict, ())"
    by (simp add: steady_def)
  have h': "Get (clientset ?F) (Name desired) (store \<lparr>store = (), trace = []\<rparr>) =
      (Inr established_then_conflict, ())"
    using h by simp
  have nu2: "\<not> needsUpdate semver [1, 15] established_then_conflict"
    using desired_current by (simp add: established_then_conflict_def)
  have nu2': "\<not> needsUpdate (version ?F) (comparableCRDSchemaVersion ?F) established_then_conflict"
    using nu2 by simp
  have rej: "names_rejected established_then_conflict"
    by (simp add: names_rejected_def established_then_conflict_def with_conditions_def
        names_conflict_def)
  have ebc2: "established_before_conflict established_then_conflict"
    by (simp add: established_before_conflict_def established_then_conflict_def
        with_conditions_def established_true_def)
  have third: "createUpdateCRD ?F ''CiliumNetworkPolicy/v2'' desired \<lparr>store = (), trace = []\<rparr> =
     (None, \<lparr>store = (), trace = [EvGet (Name desired), EvWait, EvGet (Name desired)]\<rparr>)"
    using converged_fetches_twice [OF h' nu2' h ebc2, of "''CiliumNetworkPolicy/v2''"] by simp
  show ?thesis
    using first g current_facts(1) ebc second h nu2 rej ebc2 third by simp
qed

lemma not_mentions_conflict: "\<not> sublist ''conflict'' (message ErrWaitTimeout)"
  by (simp add: ErrWaitTimeout_def New_error_def sublist_code)

text \<open>
  C4. What the code does where the claim asks for an immediate failure: against a
  store whose descriptor reports NamesAccepted false with the reason conflict, the
  acceptance poll runs to its ceiling (one fetch per interval, and one more), the
  descriptor is deleted, and the error returned is the timeout of the poll, whose
  message does not mention the reason.
\<close>

theorem names_conflict_polls_until_timeout:
  "createUpdateCRD (agent (steady (with_conditions [names_conflict] desired)) n)
       ''CiliumNetworkPolicy/v2'' desired \<lparr>store = (), trace = []\<rparr> =
     (Some ErrWaitTimeout,
      \<lparr>store = (),
       trace = EvGet (Name desired) # polls (Name desired) (Suc n) @ [EvDelete (Name desired)]\<rparr>)
   \<and> \<not> sublist ''conflict'' (message ErrWaitTimeout)"
proof -
  let ?d = "with_conditions [names_conflict] desired"
  let ?E = "agent (steady ?d) n"
  have nu: "\<not> needsUpdate semver [1, 15] ?d"
    using desired_current by (simp add: with_conditions_def)
  have f: "fetchOrCreate ?E desired \<lparr>store = (), trace = []\<rparr> =
             (Inr ?d, \<lparr>store = (), trace = [EvGet (Name desired)]\<rparr>)"
    by (simp add: fetchOrCreate_def callGet_def agent_def steady_def)
  have u: "updateIfNeeded ?E desired ?d w = (None, w)" for w
    using nu by (simp add: updateIfNeeded_def agent_def)
  have c: "checkConditions None (Conditions ?d) = (False, None)"
    by (simp add: with_conditions_def names_conflict_def)
  have p: "Poll n (establishedCondition ?E desired) \<lparr>store = (), trace = [EvGet (Name desired)]\<rparr> =
             (Some ErrWaitTimeout,
              \<lparr>store = (), trace = [EvGet (Name desired)] @ polls (Name desired) (Suc n)\<rparr>)"
    using Poll_never_accepted [of ?E desired ?d n, OF _ c]
    by (simp add: agent_def steady_def)
  have "pollTicks ?E = n" by (simp add: agent_def)
  then have "createUpdateCRD ?E ''CiliumNetworkPolicy/v2'' desired \<lparr>store = (), trace = []\<rparr> =
     (Some ErrWaitTimeout,
      \<lparr>store = (),
       trace = EvGet (Name desired) # polls (Name desired) (Suc n) @ [EvDelete (Name desired)]\<rparr>)"
    using f u p
    by (simp add: createUpdateCRD_def rollback_def callDelete_def agent_def steady_def)
  then show ?thesis using not_mentions_conflict by simp
qed

subsection \<open>The order of the managed kinds\<close>

lemma CreateCustomResourceDefinitions_first_error:
  "CreateCustomResourceDefinitions E w = first_error (managed_kinds E) w"
  by (simp add: CreateCustomResourceDefinitions_def managed_kinds_def returned_def
      split: prod.splits outcome.splits option.splits)

lemma fetches_append: "fetches (xs @ ys) = fetches xs @ fetches ys"
  by (induction xs rule: fetches.induct) simp_all

lemma fetches_callGet:
  "callGet c n w = (r, w') \<Longrightarrow> fetches (trace w') = fetches (trace w) @ [n]"
  by (auto simp: callGet_def fetches_append split: prod.splits)

lemma fetches_callCreate:
  "callCreate c d w = (r, w') \<Longrightarrow> fetches (trace w') = fetches (trace w)"
  by (auto simp: callCreate_def fetches_append split: prod.splits)

lemma fetches_callUpdate:
  "callUpdate c d w = (r, w') \<Longrightarrow> fetches (trace w') = fetches (trace w)"
  by (auto simp: callUpdate_def fetches_append split: prod.splits)

lemma fetches_callDelete:
  "callDelete c n w = (r, w') \<Longrightarrow> fetches (trace w') = fetches (trace w)"
  by (auto simp: callDelete_def fetches_append split: prod.splits)

lemma fetches_wait_tick: "fetches (trace (wait_tick w)) = fetches (trace w)"
  by (simp add: wait_tick_def fetches_append)

lemma fetches_fetchOrCreate:
  "fetchOrCreate E crd w = (r, w') \<Longrightarrow> fetches (trace w') = fetches (trace w) @ [Name crd]"
  by (auto simp: fetchOrCreate_def split: prod.splits sum.splits if_splits
      dest!: fetches_callGet fetches_callCreate)

lemma fetches_updateCondition:
  "updateCondition E crd w = (r, w') \<Longrightarrow> fetches (trace w') = fetches (trace w) @ [Name crd]"
  by (auto simp: updateCondition_def split: prod.splits sum.splits if_splits
      dest!: fetches_callGet fetches_callUpdate)

lemma fetches_establishedCondition:
  "establishedCondition E crd w = (r, w') \<Longrightarrow>
     fetches (trace w') = fetches (trace w) @ [Name crd]"
  by (auto simp: establishedCondition_def split: prod.splits sum.splits if_splits
      dest!: fetches_callGet)

lemma fetches_Poll:
  assumes step: "\<And>w r w'. condition w = (r, w') \<Longrightarrow> fetches (trace w') = fetches (trace w) @ [n]"
  shows "Poll k condition w = (r, w') \<Longrightarrow>
           \<exists>j. fetches (trace w') = fetches (trace w) @ replicate (Suc j) n"
proof (induction k arbitrary: w)
  case 0
  obtain ok e w1 where c: "condition (wait_tick w) = ((ok, e), w1)"
    by (metis surj_pair)
  from step [OF c] have "fetches (trace w1) = fetches (trace w) @ [n]"
    by (simp add: fetches_wait_tick)
  moreover have "w' = w1" using 0 c by (auto split: option.splits if_splits)
  ultimately show ?case by (intro exI [of _ 0]) simp
next
  case (Suc k)
  obtain ok e w1 where c: "condition (wait_tick w) = ((ok, e), w1)"
    by (metis surj_pair)
  from step [OF c] have f1: "fetches (trace w1) = fetches (trace w) @ [n]"
    by (simp add: fetches_wait_tick)
  show ?case
  proof (cases "e = None \<and> \<not> ok")
    case True
    then have "Poll k condition w1 = (r, w')" using Suc.prems c by simp
    from Suc.IH [OF this] obtain j where
      "fetches (trace w') = fetches (trace w1) @ replicate (Suc j) n" by blast
    then have "fetches (trace w') = fetches (trace w) @ replicate (Suc (Suc j)) n"
      using f1 by (simp add: replicate_append_same)
    then show ?thesis by blast
  next
    case False
    then have "w' = w1" using Suc.prems c by (auto split: option.splits if_splits)
    then show ?thesis using f1 by (intro exI [of _ 0]) simp
  qed
qed

lemma fetches_Poll_update:
  "Poll k (updateCondition E crd) w = (r, w') \<Longrightarrow>
     \<exists>j. fetches (trace w') = fetches (trace w) @ replicate (Suc j) (Name crd)"
  by (erule fetches_Poll [rotated]) (erule fetches_updateCondition)

lemma fetches_Poll_established:
  "Poll k (establishedCondition E crd) w = (r, w') \<Longrightarrow>
     \<exists>j. fetches (trace w') = fetches (trace w) @ replicate (Suc j) (Name crd)"
  by (erule fetches_Poll [rotated]) (erule fetches_establishedCondition)

lemma fetches_createUpdateCRD:
  assumes "createUpdateCRD E CRDName crd w = (r, w')"
  shows "\<exists>j. fetches (trace w') = fetches (trace w) @ replicate (Suc j) (Name crd)"
proof -
  obtain r1 w1 where f: "fetchOrCreate E crd w = (r1, w1)" by (metis surj_pair)
  have f1: "fetches (trace w1) = fetches (trace w) @ [Name crd]"
    using fetches_fetchOrCreate [OF f] .
  show ?thesis
  proof (cases r1)
    case (Inl res)
    then have "w' = w1" using assms f by (simp add: createUpdateCRD_def)
    then show ?thesis using f1 by (intro exI [of _ 0]) simp
  next
    case (Inr clusterCRD)
    obtain r2 w2 where u: "updateIfNeeded E crd clusterCRD w1 = (r2, w2)" by (metis surj_pair)
    have "\<exists>j. fetches (trace w2) = fetches (trace w1) @ replicate j (Name crd)"
    proof (cases "needsUpdate (version E) (comparableCRDSchemaVersion E) clusterCRD")
      case True
      then have "Poll (pollTicks E) (updateCondition E crd) w1 = (r2, w2)"
        using u by (simp add: updateIfNeeded_def)
      from fetches_Poll_update [OF this] show ?thesis by blast
    next
      case False
      then have "w2 = w1" using u by (simp add: updateIfNeeded_def)
      then show ?thesis by (intro exI [of _ 0]) simp
    qed
    then obtain j2 where f2:
      "fetches (trace w2) = fetches (trace w) @ replicate (Suc j2) (Name crd)"
      using f1 by auto
    show ?thesis
    proof (cases r2)
      case (Some err)
      then have "w' = w2" using assms f u Inr by (simp add: createUpdateCRD_def)
      then show ?thesis using f2 by blast
    next
      case None
      obtain r3 w3 where p: "Poll (pollTicks E) (establishedCondition E crd) w2 = (r3, w3)"
        by (metis surj_pair)
      from fetches_Poll_established [OF p] obtain j3 where
        "fetches (trace w3) = fetches (trace w2) @ replicate (Suc j3) (Name crd)" by blast
      then have f3: "fetches (trace w3) =
          fetches (trace w) @ replicate (Suc j2 + Suc j3) (Name crd)"
        using f2 by (simp add: replicate_add replicate_append_same)
      have "fetches (trace w') = fetches (trace w3)"
        using assms f u Inr None p
        by (auto simp: createUpdateCRD_def rollback_def split: option.splits prod.splits
            dest!: fetches_callDelete)
      then show ?thesis using f3 by (metis add_Suc)
    qed
  qed
qed

lemma attempted_step:
  assumes "attempted tr = ks" and "fetches tr' = fetches tr @ replicate (Suc j) n"
    and "ks = [] \<or> last ks \<noteq> n"
  shows "attempted tr' = ks @ [n]"
proof -
  have "fetches tr = [] \<or> last (fetches tr) \<noteq> n"
    using assms(1,3) unfolding attempted_def
    by (metis last_remdups_adj remdups_adj_Nil_iff)
  then have "fetches tr = [] \<or> replicate (Suc j) n = []
      \<or> last (fetches tr) \<noteq> hd (replicate (Suc j) n)" by simp
  from remdups_adj_append' [OF this] show ?thesis
    using assms(1,2) by (simp add: attempted_def remdups_adj_replicate del: replicate_Suc)
qed

lemma fetches_createCNPCRD:
  assumes "createCNPCRD E w = (r, w')"
  shows "(r = Panicked \<and> w' = w)
       \<or> (\<exists>e j. r = Returned e \<and> fetches (trace w') =
             fetches (trace w) @ replicate (Suc j) (''ciliumnetworkpolicies.'' @ GroupName E))"
proof (cases "examplesCrdsCiliumnetworkpoliciesYaml E")
  case AssetError
  then show ?thesis using assms by (simp add: createCNPCRD_def)
next
  case UnmarshalError
  then show ?thesis using assms by (simp add: createCNPCRD_def)
next
  case (Unmarshalled v)
  then obtain e crd where "createUpdateCRD E ''CiliumNetworkPolicy/v2'' crd w = (e, w')"
    and "r = Returned e" and "Name crd = ''ciliumnetworkpolicies.'' @ GroupName E"
    using assms by (auto simp: createCNPCRD_def Let_def split: prod.splits)
  then show ?thesis using fetches_createUpdateCRD [of E _ crd w e w'] by auto
qed

lemma fetches_createCEPCRD:
  assumes "createCEPCRD E w = (r, w')"
  shows "\<exists>j. fetches (trace w') =
             fetches (trace w) @ replicate (Suc j) (''ciliumendpoints.'' @ GroupName E)"
  using assms by (auto simp: createCEPCRD_def Let_def dest!: fetches_createUpdateCRD)

lemma fetches_createNodeCRD:
  assumes "createNodeCRD E w = (r, w')"
  shows "\<exists>j. fetches (trace w') =
             fetches (trace w) @ replicate (Suc j) (''ciliumnodes.'' @ GroupName E)"
  using assms by (auto simp: createNodeCRD_def Let_def dest!: fetches_createUpdateCRD)

lemma fetches_createIdentityCRD:
  assumes "createIdentityCRD E w = (r, w')"
  shows "\<exists>j. fetches (trace w') =
             fetches (trace w) @ replicate (Suc j) (''ciliumidentities.'' @ GroupName E)"
  using assms by (auto simp: createIdentityCRD_def Let_def dest!: fetches_createUpdateCRD)

lemma attempted_CreateCustomResourceDefinitions:
  assumes run: "CreateCustomResourceDefinitions E w = (r, w')" and start: "trace w = []"
  shows "(r \<noteq> Returned None \<and> attempted (trace w') = take 0 (kind_names E))
       \<or> (r \<noteq> Returned None \<and> attempted (trace w') = take 1 (kind_names E))
       \<or> (r \<noteq> Returned None \<and> attempted (trace w') = take 2 (kind_names E))
       \<or> ((r = Returned None \<longrightarrow> IdentityAllocationMode E \<noteq> IdentityAllocationModeCRD E)
            \<and> attempted (trace w') = take 3 (kind_names E))
       \<or> (IdentityAllocationMode E = IdentityAllocationModeCRD E
            \<and> attempted (trace w') = kind_names E)"
proof -
  have a0: "attempted (trace w) = []" using start by (simp add: attempted_def)
  obtain r1 w1 where c1: "createCNPCRD E w = (r1, w1)" by (metis surj_pair)
  show ?thesis
  proof (cases "r1 = Panicked")
    case True
    then have "r = Panicked" "w' = w"
      using run c1 fetches_createCNPCRD [OF c1]
      by (auto simp: CreateCustomResourceDefinitions_def)
    then show ?thesis using a0 by simp
  next
    case False
    then obtain e1 j1 where r1: "r1 = Returned e1" and f1: "fetches (trace w1) =
        fetches (trace w) @ replicate (Suc j1) (''ciliumnetworkpolicies.'' @ GroupName E)"
      using fetches_createCNPCRD [OF c1] by blast
    have a1: "attempted (trace w1) = take 1 (kind_names E)"
      using attempted_step [OF a0 f1] by (simp add: kind_names_def)
    show ?thesis
    proof (cases e1)
      case (Some err)
      then have "r = Returned (Some err)" "w' = w1"
        using run c1 r1 by (auto simp: CreateCustomResourceDefinitions_def)
      then show ?thesis using a1 by simp
    next
      case None
      obtain e2 w2 where c2: "createCEPCRD E w1 = (e2, w2)" by (metis surj_pair)
      from fetches_createCEPCRD [OF c2] obtain j2 where f2: "fetches (trace w2) =
        fetches (trace w1) @ replicate (Suc j2) (''ciliumendpoints.'' @ GroupName E)" by blast
      have a2: "attempted (trace w2) = take 2 (kind_names E)"
        using attempted_step [OF a1 f2] by (simp add: kind_names_def)
      show ?thesis
      proof (cases e2)
        case (Some err)
        then have "r = Returned (Some err)" "w' = w2"
          using run c1 r1 None c2 by (auto simp: CreateCustomResourceDefinitions_def)
        then show ?thesis using a2 by simp
      next
        case n2: None
        obtain e3 w3 where c3: "createNodeCRD E w2 = (e3, w3)" by (metis surj_pair)
        from fetches_createNodeCRD [OF c3] obtain j3 where f3: "fetches (trace w3) =
          fetches (trace w2) @ replicate (Suc j3) (''ciliumnodes.'' @ GroupName E)" by blast
        have a3: "attempted (trace w3) = take 3 (kind_names E)"
          using attempted_step [OF a2 f3] by (simp add: kind_names_def numeral_3_eq_3 numeral_2_eq_2)
        show ?thesis
        proof (cases e3)
          case (Some err)
          then have "r = Returned (Some err)" "w' = w3"
            using run c1 r1 None n2 c2 c3 by (auto simp: CreateCustomResourceDefinitions_def)
          then show ?thesis using a3 by simp
        next
          case n3: None
          show ?thesis
          proof (cases "IdentityAllocationMode E = IdentityAllocationModeCRD E")
            case False
            then have "w' = w3"
              using run c1 r1 None n2 n3 c2 c3 by (auto simp: CreateCustomResourceDefinitions_def)
            then show ?thesis using a3 False by simp
          next
            case True
            obtain e4 w4 where c4: "createIdentityCRD E w3 = (e4, w4)" by (metis surj_pair)
            from fetches_createIdentityCRD [OF c4] obtain j4 where f4: "fetches (trace w4) =
              fetches (trace w3) @ replicate (Suc j4) (''ciliumidentities.'' @ GroupName E)"
              by blast
            have a4: "attempted (trace w4) = kind_names E"
              using attempted_step [OF a3 f4]
              by (simp add: kind_names_def numeral_3_eq_3 numeral_2_eq_2)
            have "w' = w4"
              using run c1 r1 None n2 n3 c2 c3 c4 True
              by (auto simp: CreateCustomResourceDefinitions_def split: option.splits)
            then show ?thesis using a4 True by simp
          qed
        qed
      qed
    qed
  qed
qed

text \<open>
  C10. \<open>CreateCustomResourceDefinitions\<close> reconciles the kinds one after the other and
  stops at the first outcome that is not a nil error; the identity kind is on the list
  only in the identity-allocation mode CRD. Seen from the store: the descriptors worked
  on are a prefix of policy, endpoint, node, identity; all of the list when the result
  is nil; and the identity descriptor is never fetched in another mode.
\<close>

theorem CreateCustomResourceDefinitions_in_order:
  "CreateCustomResourceDefinitions E w = first_error (managed_kinds E) w
   \<and> prefix (attempted (trace (snd (CreateCustomResourceDefinitions E \<lparr>store = s, trace = []\<rparr>))))
        (kind_names E)
   \<and> (fst (CreateCustomResourceDefinitions E \<lparr>store = s, trace = []\<rparr>) = Returned None \<longrightarrow>
        attempted (trace (snd (CreateCustomResourceDefinitions E \<lparr>store = s, trace = []\<rparr>))) =
          (if IdentityAllocationMode E = IdentityAllocationModeCRD E
           then kind_names E else take 3 (kind_names E)))
   \<and> (IdentityAllocationMode E \<noteq> IdentityAllocationModeCRD E \<longrightarrow>
        ''ciliumidentities.'' @ GroupName E
          \<notin> set (fetches (trace (snd (CreateCustomResourceDefinitions E
                                          \<lparr>store = s, trace = []\<rparr>)))))"
proof -
  let ?w0 = "\<lparr>store = s, trace = []\<rparr>"
  obtain r w' where run: "CreateCustomResourceDefinitions E ?w0 = (r, w')"
    by (metis surj_pair)
  have start: "trace ?w0 = []" by simp
  note a = attempted_CreateCustomResourceDefinitions [OF run start]
  have tk: "prefix (take k (kind_names E)) (kind_names E)" for k
    by (rule take_is_prefix)
  have p: "prefix (attempted (trace w')) (kind_names E)"
    using a tk by (metis prefix_order.order_refl)
  have ok: "r = Returned None \<Longrightarrow> attempted (trace w') =
          (if IdentityAllocationMode E = IdentityAllocationModeCRD E
           then kind_names E else take 3 (kind_names E))"
    using a by auto
  have "set (fetches (trace w')) = set (attempted (trace w'))"
    by (simp add: attempted_def)
  moreover have "IdentityAllocationMode E \<noteq> IdentityAllocationModeCRD E \<Longrightarrow>
      ''ciliumidentities.'' @ GroupName E \<notin> set (attempted (trace w'))"
    using a by (auto simp: kind_names_def numeral_3_eq_3 numeral_2_eq_2)
  ultimately have skip: "IdentityAllocationMode E \<noteq> IdentityAllocationModeCRD E \<Longrightarrow>
      ''ciliumidentities.'' @ GroupName E \<notin> set (fetches (trace w'))"
    by simp
  show ?thesis
    using CreateCustomResourceDefinitions_first_error [of E w] p ok skip
    by (simp add: run)
qed

theorem CreateCustomResourceDefinitions_in_order_witness:
  "fst (CreateCustomResourceDefinitions (agent scripted 1)
      \<lparr>store = [Inr current, Inr current, Inr current, Inr current, Inr current, Inr current],
        trace = []\<rparr>) = Returned None
   \<and> IdentityAllocationMode (agent scripted 1) \<noteq> IdentityAllocationModeCRD (agent scripted 1)
   \<and> attempted (trace (snd (CreateCustomResourceDefinitions (agent scripted 1)
      \<lparr>store = [Inr current, Inr current, Inr current, Inr current, Inr current, Inr current],
        trace = []\<rparr>))) =
      [''ciliumnetworkpolicies.cilium.io'', ''ciliumendpoints.cilium.io'',
       ''ciliumnodes.cilium.io'']
   \<and> ''ciliumidentities.cilium.io''
        \<notin> set (fetches (trace (snd (CreateCustomResourceDefinitions (agent scripted 1)
      \<lparr>store = [Inr current, Inr current, Inr current, Inr current, Inr current, Inr current],
        trace = []\<rparr>))))"
proof -
  have ok: "fst (CreateCustomResourceDefinitions (agent scripted 1)
      \<lparr>store = [Inr current, Inr current, Inr current, Inr current, Inr current, Inr current],
        trace = []\<rparr>) = Returned None"
    by code_simp
  have mode: "IdentityAllocationMode (agent scripted 1) \<noteq> IdentityAllocationModeCRD (agent scripted 1)"
    by simp
  show ?thesis
    using CreateCustomResourceDefinitions_in_order [of "agent scripted 1" undefined
        "[Inr current, Inr current, Inr current, Inr current, Inr current, Inr current]",
        THEN conjunct2]
      ok mode
    by (simp add: kind_names_def numeral_3_eq_3)
qed

end
